theory Spec2Isabelle
  imports Complex_Main "HOL-Library.Option_ord"
begin

section \<open>Python strings\<close>

text \<open>
  Strings are lists of characters. The operations below are the ones the curator applies
  to insight text; they are exact on ASCII text (\<open>lower\<close> leaves every character outside
  \<open>A\<close>..\<open>Z\<close> alone, \<open>strip\<close> removes the ASCII white space of \<open>str.strip()\<close>).
\<close>

definition lower_char :: "char \<Rightarrow> char" where
  "lower_char c =
     (case map_of (zip ''ABCDEFGHIJKLMNOPQRSTUVWXYZ'' ''abcdefghijklmnopqrstuvwxyz'') c of
        None \<Rightarrow> c
      | Some d \<Rightarrow> d)"

definition lower :: "string \<Rightarrow> string" where
  "lower s = map lower_char s"

definition startswith :: "string \<Rightarrow> string \<Rightarrow> bool" where
  "startswith s p = (take (length p) s = p)"

text \<open>\<open>py_in needle s\<close> is Python's \<open>needle in s\<close> on strings.\<close>

fun py_in :: "string \<Rightarrow> string \<Rightarrow> bool" where
  "py_in needle [] = (needle = [])"
| "py_in needle (c # cs) = (startswith (c # cs) needle \<or> py_in needle cs)"

text \<open>\<open>any_in words s\<close> is \<open>any(word in s for word in words)\<close>.\<close>

definition any_in :: "string list \<Rightarrow> string \<Rightarrow> bool" where
  "any_in words s = list_ex (\<lambda>word. py_in word s) words"

definition is_space :: "char \<Rightarrow> bool" where
  "is_space c = (c \<in> set [CHR 0x09, CHR 0x0A, CHR 0x0B, CHR 0x0C, CHR 0x0D,
                          CHR 0x1C, CHR 0x1D, CHR 0x1E, CHR 0x1F, CHR 0x20])"

definition strip :: "string \<Rightarrow> string" where
  "strip s = rev (dropWhile is_space (rev (dropWhile is_space s)))"

text \<open>\<open>split_nl s\<close> is \<open>s.split('\n')\<close> and \<open>join_nl\<close> is \<open>'\n'.join\<close>.\<close>

fun split_nl :: "string \<Rightarrow> string list" where
  "split_nl [] = [[]]"
| "split_nl (c # cs) =
     (if c = CHR 0x0A then [] # split_nl cs
      else (case split_nl cs of [] \<Rightarrow> [[c]] | l # ls \<Rightarrow> (c # l) # ls))"

fun join_nl :: "string list \<Rightarrow> string" where
  "join_nl [] = []"
| "join_nl [l] = l"
| "join_nl (l # m # ls) = l @ CHR 0x0A # join_nl (m # ls)"

text \<open>\<open>str_nat n\<close> is \<open>str(n)\<close> for a non-negative integer.\<close>

fun str_nat :: "nat \<Rightarrow> string" where
  "str_nat n =
     (if n < 10 then [''0123456789'' ! n]
      else str_nat (n div 10) @ [''0123456789'' ! (n mod 10)])"

declare str_nat.simps [simp del]

section \<open>Data model\<close>

text \<open>
  The dataclass \<open>Bullet\<close> of \<open>playbook_manager.py\<close>. Its field \<open>id\<close> is \<open>id'\<close> and its
  field \<open>section\<close> is \<open>section'\<close> here. The counters are Python integers.
\<close>

record Bullet =
  id' :: string
  helpful :: int
  harmful :: int
  content :: string
  section' :: string
  created_at :: string
  last_used :: string

text \<open>The dataclass \<open>ReflectionInsight\<close> of \<open>reflector_agent.py\<close>.\<close>

record ReflectionInsight =
  error_identification :: string
  root_cause_analysis :: string
  correct_approach :: string
  key_insight :: string
  bullet_tags :: "(string \<times> string) list list"
  confidence :: rat

text \<open>
  The dataclasses \<open>DeltaOperation\<close> and \<open>DeltaUpdate\<close> of \<open>curator_agent.py\<close>. The
  optional fields \<open>content\<close> and \<open>section\<close> of an operation are \<open>op_content\<close> and
  \<open>op_section\<close> here.
\<close>

record DeltaOperation =
  operation :: string
  bullet_id :: "string option"
  op_content :: "string option"
  op_section :: "string option"
  helpful_increment :: int
  harmful_increment :: int

record DeltaUpdate =
  operations :: "DeltaOperation list"
  timestamp :: string
  source_feedback_id :: string
  total_operations :: nat

text \<open>
  The dataclass \<open>FeedbackData\<close> of \<open>feedback_system.py\<close> (its \<open>timestamp\<close> is
  \<open>fb_timestamp\<close> here), and the part of the chat-turn dictionary the pipeline reads:
  \<open>chat_data.get("question", "")\<close>, \<open>chat_data.get("model_response", "")\<close> and
  \<open>chat_data.get("used_bullets", [])\<close>.
\<close>

record FeedbackData =
  feedback_id :: string
  user_id :: string
  question :: string
  model_response :: string
  user_feedback :: string
  feedback_type :: string
  rating :: "int option"
  fb_timestamp :: string
  session_id :: "string option"
  additional_notes :: "string option"

record ChatData =
  chat_question :: string
  chat_model_response :: string
  used_bullets :: "string list"


text \<open>The exceptions that reach the code modelled here.\<close>

datatype error = TypeError | IndexError | AssertionError | ValueError | OSError

section \<open>The environment of the playbook store\<close>

text \<open>
  The store talks to an embedding provider, to FAISS and numpy, to the file system, to
  \<open>uuid.uuid4\<close> and to the clock. None of them is part of the repository, and their
  answers may change from call to call, so they are parameters:
  \<^item> \<open>embed_query env n text\<close> is what \<open>_get_embedding(text)\<close> returns when it is the
    \<open>n\<close>-th embedding request (the zero vector when the provider failed);
  \<^item> \<open>normalize env\<close> is \<open>_normalize_embedding\<close>; \<open>dimension_ok env v\<close> says that \<open>v\<close> has
    the dimension of the index, which \<open>index.add\<close> and \<open>index.search\<close> assert;
    \<open>inner_product env\<close> is the score of \<open>IndexFlatIP\<close>;
  \<^item> \<open>norm_positive env v\<close> is \<open>np.linalg.norm(v) > 0\<close> and \<open>cosine env u v\<close> is
    \<open>np.dot(u, v) / (norm_u * norm_v)\<close>, or \<open>None\<close> when \<open>np.dot\<close> raises \<open>ValueError\<close>
    on vectors of different shapes;
  \<^item> \<open>save_fails env n\<close> says that the \<open>n\<close>-th run of \<open>save_playbook\<close> raises while it
    writes its files;
  \<^item> \<open>uuid4 env n\<close> is \<open>str(uuid.uuid4())\<close> as drawn by the \<open>n\<close>-th call of the store
    and \<open>now env n\<close> is the clock reading of that call.
  Vectors have type \<open>'v\<close> and scores an arbitrary linear order \<open>'s\<close>.
\<close>

record ('v, 's) Env =
  embed_query :: "nat \<Rightarrow> string \<Rightarrow> 'v"
  normalize :: "'v \<Rightarrow> 'v"
  dimension_ok :: "'v \<Rightarrow> bool"
  inner_product :: "'v \<Rightarrow> 'v \<Rightarrow> 's"
  norm_positive :: "'v \<Rightarrow> bool"
  cosine :: "'v \<Rightarrow> 'v \<Rightarrow> 's option"
  save_fails :: "nat \<Rightarrow> bool"
  uuid4 :: "nat \<Rightarrow> string"
  now :: "nat \<Rightarrow> string"

datatype call = AddBullet "string option" string | UpdateCounters string bool

text \<open>
  The state of \<open>PlaybookManager\<close>: the bullet list, the FAISS index as the list of its
  vectors, and the id-to-position dictionary. Three more fields record what the code
  asks of its collaborators: \<open>embed_log\<close> holds the texts sent to the embedding
  provider, \<open>calls\<close> the calls of \<open>add_bullet\<close> and \<open>update_counters\<close>, both in call
  order, and \<open>saves\<close> counts the runs of \<open>save_playbook\<close>.
\<close>

record 'v PlaybookManager =
  bullets :: "Bullet list"
  index :: "'v list"
  bullet_id_to_index :: "string \<rightharpoonup> nat"
  embed_log :: "string list"
  calls :: "call list"
  saves :: nat

definition empty_store :: "'v PlaybookManager" where
  "empty_store = \<lparr>bullets = [], index = [], bullet_id_to_index = Map.empty,
                   embed_log = [], calls = [], saves = 0\<rparr>"

text \<open>
  A store is consistent (\<open>store_ok\<close>) when the index holds one vector per bullet, no
  two bullets share an id, and the dictionary sends each bullet's id to the bullet's
  position in the list and has no other key.
\<close>

definition id_positions :: "Bullet list \<Rightarrow> string \<rightharpoonup> nat" where
  "id_positions bs = map_of (zip (map id' bs) [0..<length bs])"

definition store_ok :: "'v PlaybookManager \<Rightarrow> bool" where
  "store_ok st \<longleftrightarrow>
     length (index st) = length (bullets st) \<and>
     distinct (map id' (bullets st)) \<and>
     bullet_id_to_index st = id_positions (bullets st)"

section \<open>The playbook store (\<open>playbook_manager.py\<close>)\<close>

definition get_embedding ::
  "('v, 's) Env \<Rightarrow> string \<Rightarrow> 'v PlaybookManager \<Rightarrow> 'v \<times> 'v PlaybookManager" where
  "get_embedding env text st =
     (embed_query env (length (embed_log st)) text, st\<lparr>embed_log := embed_log st @ [text]\<rparr>)"

text \<open>
  \<open>save_playbook\<close> writes the metadata, the markdown rendering and the index to files.
  It changes nothing in memory and has no \<open>try\<close>: a failed write raises.
\<close>

definition save_playbook ::
  "('v, 's) Env \<Rightarrow> 'v PlaybookManager \<Rightarrow> (error + unit) \<times> 'v PlaybookManager" where
  "save_playbook env st =
     (if save_fails env (saves st) then Inl OSError else Inr (), st\<lparr>saves := Suc (saves st)\<rparr>)"

text \<open>
  \<open>add_bullet\<close>. The id of the new bullet is \<open>ctx-\<close> followed by the first eight
  characters of a fresh uuid. The caller \<open>merge_delta\<close> passes an optional content; on \<open>None\<close> the
  slice \<open>content[:100]\<close> of the second \<open>print\<close> raises \<open>TypeError\<close> before the store is
  touched. The bullet is appended and entered in the dictionary before its vector goes
  to the index, so a vector that \<open>index.add\<close> rejects leaves a bullet without a vector;
  a failing \<open>save_playbook\<close> leaves the addition done in memory.
\<close>

definition add_bullet ::
  "('v, 's) Env \<Rightarrow> string option \<Rightarrow> string \<Rightarrow> 'v PlaybookManager
     \<Rightarrow> (error + string) \<times> 'v PlaybookManager" where
  "add_bullet env content_arg section_arg st0 =
     (let n = length (calls st0);
          st = st0\<lparr>calls := calls st0 @ [AddBullet content_arg section_arg]\<rparr>
      in case content_arg of
           None \<Rightarrow> (Inl TypeError, st)
         | Some c \<Rightarrow>
             (let new_id = ''ctx-'' @ take 8 (uuid4 env n);
                  bullet = \<lparr>id' = new_id, helpful = 0, harmful = 0, content = c,
                            section' = section_arg, created_at = now env n,
                            last_used = now env n\<rparr>;
                  st1 = st\<lparr>bullets := bullets st @ [bullet]\<rparr>;
                  st2 = st1\<lparr>bullet_id_to_index :=
                              (bullet_id_to_index st1)(new_id \<mapsto> length (bullets st1) - 1)\<rparr>;
                  (embedding, st3) = get_embedding env c st2;
                  normalized_embedding = normalize env embedding
              in if dimension_ok env normalized_embedding then
                   (case save_playbook env (st3\<lparr>index := index st3 @ [normalized_embedding]\<rparr>) of
                      (Inl e, st4) \<Rightarrow> (Inl e, st4)
                    | (Inr _, st4) \<Rightarrow> (Inr new_id, st4))
                 else (Inl AssertionError, st3)))"

text \<open>
  \<open>update_counters\<close>. An id that is not a key returns \<open>False\<close>; a key whose position is past
  the end of the bullet list makes \<open>self.bullets[index]\<close> raise \<open>IndexError\<close>; the
  counter is changed before \<open>save_playbook\<close> runs.
\<close>

definition update_counters ::
  "('v, 's) Env \<Rightarrow> string \<Rightarrow> bool \<Rightarrow> 'v PlaybookManager
     \<Rightarrow> (error + bool) \<times> 'v PlaybookManager" where
  "update_counters env bid helpful_arg st0 =
     (let n = length (calls st0);
          st = st0\<lparr>calls := calls st0 @ [UpdateCounters bid helpful_arg]\<rparr>
      in case bullet_id_to_index st bid of
           None \<Rightarrow> (Inr False, st)
         | Some idx \<Rightarrow>
             if idx < length (bullets st) then
               (let bullet = bullets st ! idx;
                    bullet1 = (if helpful_arg then bullet\<lparr>helpful := helpful bullet + 1\<rparr>
                               else bullet\<lparr>harmful := harmful bullet + 1\<rparr>);
                    bullet2 = bullet1\<lparr>last_used := now env n\<rparr>
                in case save_playbook env (st\<lparr>bullets := (bullets st)[idx := bullet2]\<rparr>) of
                     (Inl e, st1) \<Rightarrow> (Inl e, st1)
                   | (Inr _, st1) \<Rightarrow> (Inr True, st1))
             else (Inl IndexError, st))"

text \<open>
  \<open>index.search(query, k)\<close> of a flat inner-product index, for \<open>k > 0\<close>: the \<open>k\<close> best
  positions by descending score, the earlier position first among equal scores, each
  with its score, padded with the label \<open>-1\<close> and the lowest score (\<open>None\<close>) when the
  index holds fewer than \<open>k\<close> vectors.
\<close>

definition index_search ::
  "('v, 's::linorder) Env \<Rightarrow> 'v list \<Rightarrow> 'v \<Rightarrow> nat \<Rightarrow> ('s option \<times> int) list" where
  "index_search env idx q k =
     take k (rev (sort_key fst
                    (rev (map (\<lambda>p. (Some (inner_product env (idx ! p) q), int p))
                            [0..<length idx]))))
     @ replicate (k - length idx) (None, - 1)"

text \<open>
  \<open>self.bullets[idx]\<close> for \<open>idx < len(self.bullets)\<close>: a negative \<open>idx\<close> counts from the
  end. \<open>retrieve_relevant\<close> reads only at \<open>-1 \<le> idx\<close> on a non-empty list.
\<close>

definition bullet_at :: "Bullet list \<Rightarrow> int \<Rightarrow> Bullet" where
  "bullet_at bs idx = (if 0 \<le> idx then bs ! nat idx else bs ! nat (int (length bs) + idx))"

text \<open>The loop of \<open>retrieve_relevant\<close> over \<open>zip(scores[0], indices[0])\<close>, keeping the score
  of each bullet it appends.\<close>

fun relevant_hits :: "Bullet list \<Rightarrow> ('s option \<times> int) list \<Rightarrow> ('s option \<times> Bullet) list" where
  "relevant_hits bs [] = []"
| "relevant_hits bs ((score, idx) # rest) =
     (if idx < int (length bs) then
        (let bullet = bullet_at bs idx
         in if helpful bullet \<ge> harmful bullet then (score, bullet) # relevant_hits bs rest
            else relevant_hits bs rest)
      else relevant_hits bs rest)"

text \<open>
  \<open>retrieve_relevant\<close>, with \<open>top_k\<close> a Python integer. \<open>index.search\<close> asserts that the
  query has the dimension of the index and that \<open>k > 0\<close>, so it raises
  \<open>AssertionError\<close> otherwise, after the query has been embedded. \<open>retrieve_scored\<close> is
  the function with the score kept beside each bullet; \<open>retrieve_relevant\<close> drops the
  scores.
\<close>

definition retrieve_scored ::
  "('v, 's::linorder) Env \<Rightarrow> string \<Rightarrow> int \<Rightarrow> 'v PlaybookManager
     \<Rightarrow> (error + ('s option \<times> Bullet) list) \<times> 'v PlaybookManager" where
  "retrieve_scored env query top_k st =
     (if bullets st = [] then (Inr [], st)
      else
        (let (query_embedding, st1) = get_embedding env query st;
             normalized_query = normalize env query_embedding;
             k = min top_k (int (length (bullets st1)))
         in if dimension_ok env normalized_query \<and> 0 < k then
              (Inr (take (nat top_k)
                      (relevant_hits (bullets st1)
                         (index_search env (index st1) normalized_query (nat k)))), st1)
            else (Inl AssertionError, st1)))"

definition retrieve_relevant ::
  "('v, 's::linorder) Env \<Rightarrow> string \<Rightarrow> int \<Rightarrow> 'v PlaybookManager
     \<Rightarrow> (error + Bullet list) \<times> 'v PlaybookManager" where
  "retrieve_relevant env query top_k st =
     (case retrieve_scored env query top_k st of
        (Inl e, st1) \<Rightarrow> (Inl e, st1)
      | (Inr scored, st1) \<Rightarrow> (Inr (map snd scored), st1))"

text \<open>
  \<open>_rebuild_index\<close>: a fresh index and a fresh dictionary, then one entry and one vector
  per bullet, in list order; \<open>index.add\<close> raises on a vector of the wrong dimension.
\<close>

fun rebuild_loop ::
  "('v, 's) Env \<Rightarrow> (nat \<times> Bullet) list \<Rightarrow> 'v PlaybookManager
     \<Rightarrow> (error + unit) \<times> 'v PlaybookManager" where
  "rebuild_loop env [] st = (Inr (), st)"
| "rebuild_loop env ((i, bullet) # rest) st =
     (let st1 = st\<lparr>bullet_id_to_index := (bullet_id_to_index st)(id' bullet \<mapsto> i)\<rparr>;
          (embedding, st2) = get_embedding env (content bullet) st1;
          normalized_embedding = normalize env embedding
      in if dimension_ok env normalized_embedding
         then rebuild_loop env rest (st2\<lparr>index := index st2 @ [normalized_embedding]\<rparr>)
         else (Inl AssertionError, st2))"

definition rebuild_index ::
  "('v, 's) Env \<Rightarrow> 'v PlaybookManager \<Rightarrow> (error + unit) \<times> 'v PlaybookManager" where
  "rebuild_index env st =
     rebuild_loop env (enumerate 0 (bullets st))
       (st\<lparr>index := [], bullet_id_to_index := Map.empty\<rparr>)"

text \<open>
  \<open>deduplicate\<close>. \<open>ratio\<close> is \<open>bullet.helpful / max(bullet.harmful, 1)\<close>, and \<open>absorb a b\<close>
  is \<open>a\<close> after \<open>a.helpful += b.helpful; a.harmful += b.harmful\<close>. The inner loop runs
  over \<open>range(i + 1, len(self.bullets))\<close> and stops at its \<open>break\<close>; the outer loop runs
  over \<open>range(len(self.bullets))\<close>. Both carry the set \<open>bullets_to_remove\<close>. An exception
  of \<open>np.dot\<close> leaves the loops with the counters merged so far and no bullet removed.
\<close>

definition ratio :: "Bullet \<Rightarrow> rat" where
  "ratio b = of_int (helpful b) / of_int (max (harmful b) 1)"

definition absorb :: "Bullet \<Rightarrow> Bullet \<Rightarrow> Bullet" where
  "absorb a b = a\<lparr>helpful := helpful a + helpful b, harmful := harmful a + harmful b\<rparr>"

fun dedup_inner ::
  "('v, 's::linorder) Env \<Rightarrow> 's \<Rightarrow> nat \<Rightarrow> nat list \<Rightarrow> nat set \<Rightarrow> 'v PlaybookManager
     \<Rightarrow> (error + nat set) \<times> 'v PlaybookManager" where
  "dedup_inner env threshold i [] to_remove st = (Inr to_remove, st)"
| "dedup_inner env threshold i (j # js) to_remove st =
     (if j \<in> to_remove then dedup_inner env threshold i js to_remove st
      else
        (let bullet_i = bullets st ! i;
             bullet_j = bullets st ! j;
             (emb_i, st1) = get_embedding env (content bullet_i) st;
             (emb_j, st2) = get_embedding env (content bullet_j) st1
         in if norm_positive env emb_i \<and> norm_positive env emb_j then
              (case cosine env emb_i emb_j of
                 None \<Rightarrow> (Inl ValueError, st2)
               | Some similarity \<Rightarrow>
                   if similarity \<ge> threshold then
                     (if ratio bullet_i \<ge> ratio bullet_j
                      then dedup_inner env threshold i js (insert j to_remove)
                             (st2\<lparr>bullets := (bullets st2)[i := absorb bullet_i bullet_j]\<rparr>)
                      else (Inr (insert i to_remove),
                            st2\<lparr>bullets := (bullets st2)[j := absorb bullet_j bullet_i]\<rparr>))
                   else dedup_inner env threshold i js to_remove st2)
            else dedup_inner env threshold i js to_remove st2))"

fun dedup_outer ::
  "('v, 's::linorder) Env \<Rightarrow> 's \<Rightarrow> nat list \<Rightarrow> nat set \<Rightarrow> 'v PlaybookManager
     \<Rightarrow> (error + nat set) \<times> 'v PlaybookManager" where
  "dedup_outer env threshold [] to_remove st = (Inr to_remove, st)"
| "dedup_outer env threshold (i # is) to_remove st =
     (if i \<in> to_remove then dedup_outer env threshold is to_remove st
      else
        (case dedup_inner env threshold i [i + 1..<length (bullets st)] to_remove st of
           (Inl e, st1) \<Rightarrow> (Inl e, st1)
         | (Inr to_remove1, st1) \<Rightarrow> dedup_outer env threshold is to_remove1 st1))"

definition deduplicate ::
  "('v, 's::linorder) Env \<Rightarrow> 's \<Rightarrow> 'v PlaybookManager
     \<Rightarrow> (error + nat) \<times> 'v PlaybookManager" where
  "deduplicate env similarity_threshold st =
     (if length (bullets st) < 2 then (Inr 0, st)
      else
        (case dedup_outer env similarity_threshold [0..<length (bullets st)] {} st of
           (Inl e, st1) \<Rightarrow> (Inl e, st1)
         | (Inr to_remove, st1) \<Rightarrow>
             if to_remove \<noteq> {} then
               (case rebuild_index env
                       (st1\<lparr>bullets :=
                              map snd (filter (\<lambda>(i, bullet). i \<notin> to_remove)
                                         (enumerate 0 (bullets st1)))\<rparr>) of
                  (Inl e, st2) \<Rightarrow> (Inl e, st2)
                | (Inr _, st2) \<Rightarrow>
                    (case save_playbook env st2 of
                       (Inl e, st3) \<Rightarrow> (Inl e, st3)
                     | (Inr _, st3) \<Rightarrow> (Inr (card to_remove), st3)))
             else (Inr 0, st1)))"


section \<open>The curator (\<open>curator_agent.py\<close>)\<close>

definition find_similar_bullets ::
  "('v, 's::linorder) Env \<Rightarrow> string \<Rightarrow> 'v PlaybookManager
     \<Rightarrow> (error + Bullet list) \<times> 'v PlaybookManager" where
  "find_similar_bullets env content_arg st =
     (if bullets st = [] then (Inr [], st)
      else (case retrieve_relevant env content_arg 5 st of
              (Inl e, st1) \<Rightarrow> (Inl e, st1)
            | (Inr relevant_bullets, st1) \<Rightarrow> (Inr (take 3 relevant_bullets), st1)))"

definition apply_structured_formatting :: "string \<Rightarrow> string" where
  "apply_structured_formatting content_arg =
     (let content1 =
            (if py_in [CHR 0x0A] content_arg
                \<and> \<not> list_ex (startswith content_arg) [''1.'', ''2.'', ''3.'', ''4.'', ''5.'']
             then
               (let lines = split_nl content_arg
                in if length lines > 1
                   then join_nl (map (\<lambda>(i, line). str_nat i @ ''. '' @ strip line)
                                   (filter (\<lambda>(i, line). strip line \<noteq> [])
                                      (enumerate 1 lines)))
                   else content_arg)
             else content_arg)
      in strip content1)"

definition create_fallback_insight :: "ReflectionInsight \<Rightarrow> string" where
  "create_fallback_insight insight =
     (if error_identification insight \<noteq> []
         \<and> \<not> py_in ''no error'' (lower (error_identification insight))
      then ''When '' @ lower (error_identification insight) @ '', use this approach: ''
             @ correct_approach insight
      else ''Success pattern: '' @ correct_approach insight)"

definition clean_and_format_content :: "string \<Rightarrow> ReflectionInsight \<Rightarrow> string" where
  "clean_and_format_content content_arg insight =
     (let formatted =
            (if any_in [''HumanMessage'', ''AIMessage'', ''{'', ''}'', ''additional_kwargs'',
                        ''response_metadata''] content_arg
             then
               (if error_identification insight \<noteq> []
                   \<and> \<not> py_in ''no error'' (lower (error_identification insight))
                then ''When '' @ lower (error_identification insight)
                       @ '', avoid this approach and instead: '' @ correct_approach insight
                else ''When answering similar questions, use this approach: ''
                       @ correct_approach insight)
             else strip content_arg);
          formatted1 = apply_structured_formatting formatted
      in if formatted1 = [] \<or> length formatted1 < 10 then create_fallback_insight insight
         else formatted1)"

definition format_bullet_content :: "string \<Rightarrow> ReflectionInsight \<Rightarrow> string" where
  "format_bullet_content content_arg insight = clean_and_format_content content_arg insight"

definition determine_section :: "ReflectionInsight \<Rightarrow> string" where
  "determine_section insight =
     (let content_lower = lower (key_insight insight)
      in if any_in [''explain'', ''definition'', ''what is'', ''describe''] content_lower
           then ''Explanation Strategies''
         else if any_in [''calculate'', ''math'', ''compute'', ''solve''] content_lower
           then ''Calculation Strategies''
         else if any_in [''search'', ''find'', ''look up'', ''research''] content_lower
           then ''Search Strategies''
         else if any_in [''time'', ''date'', ''schedule''] content_lower
           then ''Time Management''
         else if any_in [''user'', ''personal'', ''individual''] content_lower
           then ''User Interaction''
         else if any_in [''error'', ''mistake'', ''wrong'', ''incorrect''] content_lower
           then ''Error Prevention''
         else if any_in [''format'', ''structure'', ''organize'', ''bullet''] content_lower
           then ''Response Formatting''
         else ''General Strategies'')"

text \<open>
  \<open>new_delta env ops fid st\<close> is the \<open>DeltaUpdate(operations=ops,
  timestamp=datetime.now().isoformat(), source_feedback_id=fid,
  total_operations=len(ops))\<close> that every path of the curator ends with.
\<close>

definition new_delta ::
  "('v, 's) Env \<Rightarrow> DeltaOperation list \<Rightarrow> string \<Rightarrow> 'v PlaybookManager \<Rightarrow> DeltaUpdate" where
  "new_delta env ops fid st =
     \<lparr>operations = ops, timestamp = now env (length (calls st)),
      source_feedback_id = fid, total_operations = length ops\<rparr>"

text \<open>
  \<open>process_insights\<close>. The search for similar bullets may raise; the exception leaves
  \<open>process_insights\<close>.
\<close>

definition process_insights ::
  "('v, 's::linorder) Env \<Rightarrow> ReflectionInsight \<Rightarrow> string \<Rightarrow> 'v PlaybookManager
     \<Rightarrow> (error + DeltaUpdate) \<times> 'v PlaybookManager" where
  "process_insights env insight fid st =
     (if confidence insight > 5 / 10 then
        (case find_similar_bullets env (key_insight insight) st of
           (Inl e, st1) \<Rightarrow> (Inl e, st1)
         | (Inr similar_bullets, st1) \<Rightarrow>
             (case similar_bullets of
                best_match # _ \<Rightarrow>
                  (Inr (new_delta env
                          [\<lparr>operation = ''UPDATE'', bullet_id = Some (id' best_match),
                            op_content =
                              Some (format_bullet_content (key_insight insight) insight),
                            op_section = None,
                            helpful_increment = (if confidence insight > 7 / 10 then 1 else 0),
                            harmful_increment = 0\<rparr>] fid st1), st1)
              | [] \<Rightarrow>
                  (let section_new = determine_section insight;
                       formatted_content =
                         format_bullet_content (key_insight insight) insight;
                       final_content = format_bullet_content formatted_content insight
                   in (Inr (new_delta env
                              [\<lparr>operation = ''ADD'', bullet_id = None,
                                op_content = Some final_content,
                                op_section = Some section_new,
                                helpful_increment = 1, harmful_increment = 0\<rparr>] fid st1),
                       st1))))
      else (Inr (new_delta env [] fid st), st))"

definition process_negative_feedback ::
  "('v, 's) Env \<Rightarrow> ReflectionInsight \<Rightarrow> string \<Rightarrow> 'v PlaybookManager \<Rightarrow> DeltaUpdate" where
  "process_negative_feedback env insight fid st =
     new_delta env
       (if confidence insight > 6 / 10 then
          [\<lparr>operation = ''ADD'', bullet_id = None,
            op_content = Some (''AVOID: '' @ error_identification insight
                               @ [CHR 0x0A, CHR 0x0A] @ ''Instead: ''
                               @ correct_approach insight),
            op_section = Some ''Anti-Patterns'',
            helpful_increment = 1, harmful_increment = 0\<rparr>]
        else []) fid st"

definition process_positive_feedback ::
  "('v, 's) Env \<Rightarrow> ReflectionInsight \<Rightarrow> string \<Rightarrow> 'v PlaybookManager \<Rightarrow> DeltaUpdate" where
  "process_positive_feedback env insight fid st =
     new_delta env
       (if confidence insight > 5 / 10 then
          [\<lparr>operation = ''ADD'', bullet_id = None,
            op_content = Some (''SUCCESS PATTERN: '' @ key_insight insight),
            op_section = Some ''Success Patterns'',
            helpful_increment = 1, harmful_increment = 0\<rparr>]
        else []) fid st"

text \<open>
  \<open>merge_delta\<close>. \<open>repeat_update env n bid flag\<close> is
  \<open>for _ in range(n): playbook_manager.update_counters(bid, helpful=flag)\<close>, whose
  results are dropped; an exception ends the loop. \<open>apply_operation\<close> is the body of the
  loop over the operations and \<open>apply_operations\<close> the loop, which an exception leaves;
  \<open>merge_delta\<close> turns the exception into \<open>False\<close>. The state that comes back is the
  state the store is left in. Writing the delta log touches files only and catches its
  own exceptions.
\<close>

fun repeat_update ::
  "('v, 's) Env \<Rightarrow> nat \<Rightarrow> string \<Rightarrow> bool \<Rightarrow> 'v PlaybookManager
     \<Rightarrow> (error + unit) \<times> 'v PlaybookManager" where
  "repeat_update env 0 bid flag st = (Inr (), st)"
| "repeat_update env (Suc n) bid flag st =
     (case update_counters env bid flag st of
        (Inl e, st1) \<Rightarrow> (Inl e, st1)
      | (Inr _, st1) \<Rightarrow> repeat_update env n bid flag st1)"

definition apply_operation ::
  "('v, 's) Env \<Rightarrow> DeltaOperation \<Rightarrow> 'v PlaybookManager
     \<Rightarrow> (error + unit) \<times> 'v PlaybookManager" where
  "apply_operation env op st =
     (if operation op = ''ADD'' then
        (case add_bullet env (op_content op)
                (case op_section op of
                   None \<Rightarrow> ''General''
                 | Some s \<Rightarrow> if s = [] then ''General'' else s) st of
           (Inl e, st1) \<Rightarrow> (Inl e, st1)
         | (Inr _, st1) \<Rightarrow> (Inr (), st1))
      else if operation op = ''UPDATE'' then
        (case bullet_id op of
           None \<Rightarrow> (Inr (), st)
         | Some bid \<Rightarrow>
             if bid = [] then (Inr (), st)
             else
               (case repeat_update env (nat (helpful_increment op)) bid True st of
                  (Inl e, st1) \<Rightarrow> (Inl e, st1)
                | (Inr _, st1) \<Rightarrow>
                    repeat_update env (nat (harmful_increment op)) bid False st1))
      else (Inr (), st))"

fun apply_operations ::
  "('v, 's) Env \<Rightarrow> DeltaOperation list \<Rightarrow> 'v PlaybookManager
     \<Rightarrow> (error + unit) \<times> 'v PlaybookManager" where
  "apply_operations env [] st = (Inr (), st)"
| "apply_operations env (op # ops) st =
     (case apply_operation env op st of
        (Inl e, st1) \<Rightarrow> (Inl e, st1)
      | (Inr _, st1) \<Rightarrow> apply_operations env ops st1)"

definition merge_delta ::
  "('v, 's) Env \<Rightarrow> DeltaUpdate \<Rightarrow> 'v PlaybookManager \<Rightarrow> bool \<times> 'v PlaybookManager" where
  "merge_delta env delta st =
     (case apply_operations env (operations delta) st of
        (Inl e, st1) \<Rightarrow> (False, st1)
      | (Inr _, st1) \<Rightarrow> (True, st1))"

section \<open>The pipeline (\<open>ace_pipeline.py\<close>)\<close>

text \<open>
  \<open>extract_insights_from_success\<close> of \<open>reflector_agent.py\<close>, and \<open>_run_reflector\<close>. The
  language-model analysis \<open>reflector_agent.analyze_feedback\<close> is the parameter
  \<open>analyze\<close>; \<open>None\<close> stands for an exception, which \<open>_run_reflector\<close> turns into "no
  insight". A feedback record without a rating makes the comparison \<open>rating <= 2\<close>
  raise \<open>TypeError\<close>, with the same outcome.
\<close>

definition extract_insights_from_success ::
  "string \<Rightarrow> string \<Rightarrow> string \<Rightarrow> int \<Rightarrow> ReflectionInsight" where
  "extract_insights_from_success q response ftype r =
     (if r \<ge> 4 then
        \<lparr>error_identification = ''No errors - successful response'',
         root_cause_analysis = ''Response met user expectations'',
         correct_approach = ''Continue using this approach'',
         key_insight = ''When answering '' @ [CHR 0x27] @ q @ [CHR 0x27]
                         @ '', use this successful pattern: '' @ response,
         bullet_tags = [], confidence = 8 / 10\<rparr>
      else
        \<lparr>error_identification = ''Partially successful response'',
         root_cause_analysis = ''Response had some value but could be improved'',
         correct_approach = ''Build on what worked, improve what didn'' @ [CHR 0x27] @ ''t'',
         key_insight = ''Partial success pattern for '' @ [CHR 0x27] @ q @ [CHR 0x27]
                         @ '': '' @ response,
         bullet_tags = [], confidence = 6 / 10\<rparr>)"

definition run_reflector ::
  "(ChatData \<Rightarrow> FeedbackData \<Rightarrow> ReflectionInsight option) \<Rightarrow> ChatData \<Rightarrow> FeedbackData
     \<Rightarrow> ReflectionInsight option" where
  "run_reflector analyze chat_data feedback_data =
     (if feedback_type feedback_data = ''incorrect'' then analyze chat_data feedback_data
      else
        (case rating feedback_data of
           None \<Rightarrow> None
         | Some r \<Rightarrow>
             if r \<le> 2 then analyze chat_data feedback_data
             else if feedback_type feedback_data = ''correct'' \<or> r \<ge> 4 then
               Some (extract_insights_from_success (chat_question chat_data)
                       (chat_model_response chat_data) (feedback_type feedback_data) r)
             else analyze chat_data feedback_data))"

text \<open>
  \<open>_run_curator\<close>. \<open>curator_path\<close> is the branch its \<open>if\<close>/\<open>elif\<close> chain takes, and
  \<open>run_curator\<close> the delta that branch computes; an exception of the branch is caught
  and gives the delta without operations.
\<close>

datatype path = NoInsight | PositivePath | NegativePath | GeneralPath

definition curator_path :: "ReflectionInsight option \<Rightarrow> path" where
  "curator_path insight_opt =
     (case insight_opt of
        None \<Rightarrow> NoInsight
      | Some insight \<Rightarrow>
          (let feedback_type_text = lower (error_identification insight)
           in if py_in ''success'' feedback_type_text \<or> py_in ''correct'' feedback_type_text
                then PositivePath
              else if py_in ''error'' feedback_type_text \<or> py_in ''wrong'' feedback_type_text
                then NegativePath
              else GeneralPath))"

definition run_curator ::
  "('v, 's::linorder) Env \<Rightarrow> ReflectionInsight option \<Rightarrow> string \<Rightarrow> 'v PlaybookManager
     \<Rightarrow> DeltaUpdate \<times> 'v PlaybookManager" where
  "run_curator env insight_opt fid st =
     (case insight_opt of
        None \<Rightarrow> (new_delta env [] fid st, st)
      | Some insight \<Rightarrow>
          (let feedback_type_text = lower (error_identification insight)
           in if py_in ''success'' feedback_type_text \<or> py_in ''correct'' feedback_type_text
                then (process_positive_feedback env insight fid st, st)
              else if py_in ''error'' feedback_type_text \<or> py_in ''wrong'' feedback_type_text
                then (process_negative_feedback env insight fid st, st)
              else (case process_insights env insight fid st of
                      (Inl e, st1) \<Rightarrow> (new_delta env [] fid st1, st1)
                    | (Inr delta, st1) \<Rightarrow> (delta, st1))))"

text \<open>
  Steps 3 and 4 of \<open>process_feedback\<close>: the reflector's insight goes to \<open>_run_curator\<close>,
  which is given the insight and the feedback id, not the feedback record.
\<close>

definition pipeline_path ::
  "(ChatData \<Rightarrow> FeedbackData \<Rightarrow> ReflectionInsight option) \<Rightarrow> ChatData \<Rightarrow> FeedbackData
     \<Rightarrow> path" where
  "pipeline_path analyze chat_data feedback_data =
     curator_path (run_reflector analyze chat_data feedback_data)"

text \<open>
  \<open>_update_bullet_counters\<close>. \<open>counters_loop\<close> is its \<open>for\<close> loop, followed by a
  \<open>save_playbook\<close>; an exception inside either (or the \<open>TypeError\<close> of comparing a
  missing rating) goes to the \<open>except\<close> clause, which prints and returns.
\<close>

fun counters_loop ::
  "('v, 's) Env \<Rightarrow> bool \<Rightarrow> bool \<Rightarrow> string list \<Rightarrow> 'v PlaybookManager
     \<Rightarrow> (error + unit) \<times> 'v PlaybookManager" where
  "counters_loop env is_positive is_negative [] st = (Inr (), st)"
| "counters_loop env is_positive is_negative (bid # rest) st =
     (if is_positive then
        (case update_counters env bid True st of
           (Inl e, st1) \<Rightarrow> (Inl e, st1)
         | (Inr _, st1) \<Rightarrow> counters_loop env is_positive is_negative rest st1)
      else if is_negative then
        (case update_counters env bid False st of
           (Inl e, st1) \<Rightarrow> (Inl e, st1)
         | (Inr _, st1) \<Rightarrow> counters_loop env is_positive is_negative rest st1)
      else counters_loop env is_positive is_negative rest st)"

definition update_bullet_counters ::
  "('v, 's) Env \<Rightarrow> ChatData \<Rightarrow> FeedbackData \<Rightarrow> 'v PlaybookManager \<Rightarrow> 'v PlaybookManager" where
  "update_bullet_counters env chat_data feedback_data st =
     (if used_bullets chat_data = [] then st
      else
        (case rating feedback_data of
           None \<Rightarrow> st
         | Some r \<Rightarrow>
             (let is_positive = (r \<ge> 4 \<or> feedback_type feedback_data = ''positive'');
                  is_negative = (r \<le> 2 \<or> feedback_type feedback_data = ''incorrect'')
              in case counters_loop env is_positive is_negative (used_bullets chat_data) st of
                   (Inl e, st1) \<Rightarrow> st1
                 | (Inr _, st1) \<Rightarrow> snd (save_playbook env st1))))"


section \<open>Notions used to state the properties\<close>

text \<open>
  The specification describes \<open>_determine_section\<close> as a first-match lookup over an
  ordered list of categories, each with its keywords. \<open>first_match\<close> is that lookup,
  \<open>section_categories\<close> the table, and \<open>occurs_in w s\<close> says that \<open>w\<close> is a contiguous
  part of \<open>s\<close>.
\<close>

definition occurs_in :: "string \<Rightarrow> string \<Rightarrow> bool" where
  "occurs_in w s \<longleftrightarrow> (\<exists>pre post. s = pre @ w @ post)"

definition section_categories :: "(string \<times> string list) list" where
  "section_categories =
     [(''Explanation Strategies'', [''explain'', ''definition'', ''what is'', ''describe'']),
      (''Calculation Strategies'', [''calculate'', ''math'', ''compute'', ''solve'']),
      (''Search Strategies'', [''search'', ''find'', ''look up'', ''research'']),
      (''Time Management'', [''time'', ''date'', ''schedule'']),
      (''User Interaction'', [''user'', ''personal'', ''individual'']),
      (''Error Prevention'', [''error'', ''mistake'', ''wrong'', ''incorrect'']),
      (''Response Formatting'', [''format'', ''structure'', ''organize'', ''bullet''])]"

fun first_match :: "(string \<times> string list) list \<Rightarrow> string \<Rightarrow> string \<Rightarrow> string" where
  "first_match [] default_label s = default_label"
| "first_match ((label, keywords) # rest) default_label s =
     (if (\<exists>w \<in> set keywords. occurs_in w s) then label
      else first_match rest default_label s)"

text \<open>
  \<open>grows st st'\<close> says that nothing present in \<open>st\<close> has been undone in \<open>st'\<close>: the logs
  of \<open>st\<close> are the beginnings of those of \<open>st'\<close>, the vectors of \<open>st\<close> are the first
  vectors of \<open>st'\<close>, every key of the dictionary is still a key, and every bullet of
  \<open>st\<close> is still at its position, with its id, content and section, and with counters
  at least as large.
\<close>

definition same_or_more :: "Bullet \<Rightarrow> Bullet \<Rightarrow> bool" where
  "same_or_more b b' \<longleftrightarrow>
     id' b' = id' b \<and> content b' = content b \<and> section' b' = section' b \<and>
     created_at b' = created_at b \<and>
     helpful b \<le> helpful b' \<and> harmful b \<le> harmful b'"

definition grows :: "'v PlaybookManager \<Rightarrow> 'v PlaybookManager \<Rightarrow> bool" where
  "grows st st' \<longleftrightarrow>
     take (length (calls st)) (calls st') = calls st \<and>
     take (length (embed_log st)) (embed_log st') = embed_log st \<and>
     take (length (index st)) (index st') = index st \<and>
     dom (bullet_id_to_index st) \<subseteq> dom (bullet_id_to_index st') \<and>
     saves st \<le> saves st' \<and>
     length (bullets st) \<le> length (bullets st') \<and>
     list_all2 same_or_more (bullets st) (take (length (bullets st)) (bullets st'))"

text \<open>
  \<open>op_calls op\<close> are the store calls an operation of a delta issues when nothing raises:
  one \<open>add_bullet\<close> for an \<open>ADD\<close>; for an \<open>UPDATE\<close> that names a bullet, one
  \<open>update_counters(id, helpful=True)\<close> per unit of \<open>helpful_increment\<close> followed by one
  \<open>update_counters(id, helpful=False)\<close> per unit of \<open>harmful_increment\<close>.
\<close>

definition op_calls :: "DeltaOperation \<Rightarrow> call list" where
  "op_calls op =
     (if operation op = ''ADD'' then
        [AddBullet (op_content op)
           (case op_section op of None \<Rightarrow> ''General''
            | Some s \<Rightarrow> if s = [] then ''General'' else s)]
      else if operation op = ''UPDATE'' then
        (case bullet_id op of
           None \<Rightarrow> []
         | Some bid \<Rightarrow>
             if bid = [] then []
             else replicate (nat (helpful_increment op)) (UpdateCounters bid True)
                  @ replicate (nat (harmful_increment op)) (UpdateCounters bid False))
      else [])"

text \<open>
  A sequence of calls of \<open>add_bullet\<close> and \<open>deduplicate\<close> on the store. A call that
  raises leaves the store as the exception found it, and the next call goes on from
  there.
\<close>

datatype 's store_op = Add string string | Dedup 's

fun run_op ::
  "('v, 's::linorder) Env \<Rightarrow> 's store_op \<Rightarrow> 'v PlaybookManager \<Rightarrow> 'v PlaybookManager" where
  "run_op env (Add c s) st = snd (add_bullet env (Some c) s st)"
| "run_op env (Dedup threshold) st = snd (deduplicate env threshold st)"

definition run_ops ::
  "('v, 's::linorder) Env \<Rightarrow> 's store_op list \<Rightarrow> 'v PlaybookManager \<Rightarrow> 'v PlaybookManager" where
  "run_ops env ops st = fold (run_op env) ops st"

text \<open>The sum of both counters over a list of bullets.\<close>

definition total_counts :: "Bullet list \<Rightarrow> int" where
  "total_counts bs = (\<Sum>b\<leftarrow>bs. helpful b + harmful b)"

text \<open>
  \<open>kept_total to_remove bs\<close> is that sum over the bullets of \<open>bs\<close> whose position is not
  in \<open>to_remove\<close>.
\<close>

definition kept_total :: "nat set \<Rightarrow> Bullet list \<Rightarrow> int" where
  "kept_total to_remove bs =
     (\<Sum>i\<in>{..<length bs} - to_remove. helpful (bs ! i) + harmful (bs ! i))"



section \<open>Examples to run the definitions on\<close>

definition example_env :: "(int, int) Env" where
  "example_env =
     \<lparr>embed_query = (\<lambda>n t. int (length t)), normalize = (\<lambda>v. v),
      dimension_ok = (\<lambda>v. True),
      inner_product = (\<lambda>u v. u * v), norm_positive = (\<lambda>v. v \<noteq> 0),
      cosine = (\<lambda>u v. Some (if u = v then 1 else 0)),
      save_fails = (\<lambda>n. False),
      uuid4 = (\<lambda>n. replicate (Suc n) CHR ''a''), now = (\<lambda>n. replicate n CHR ''t'')\<rparr>"

definition example_bullet :: "string \<Rightarrow> int \<Rightarrow> int \<Rightarrow> string \<Rightarrow> Bullet" where
  "example_bullet i h k c =
     \<lparr>id' = i, helpful = h, harmful = k, content = c, section' = ''General'',
      created_at = [], last_used = []\<rparr>"

definition example_store :: "Bullet list \<Rightarrow> int PlaybookManager" where
  "example_store bs =
     \<lparr>bullets = bs, index = map (\<lambda>b. int (length (content b))) bs,
      bullet_id_to_index = id_positions bs, embed_log = [], calls = [], saves = 0\<rparr>"

definition example_insight :: "string \<Rightarrow> string \<Rightarrow> string \<Rightarrow> rat \<Rightarrow> ReflectionInsight" where
  "example_insight ei ca ki c =
     \<lparr>error_identification = ei, root_cause_analysis = [], correct_approach = ca,
      key_insight = ki, bullet_tags = [], confidence = c\<rparr>"

definition example_chat :: "string list \<Rightarrow> ChatData" where
  "example_chat used = \<lparr>chat_question = ''q'', chat_model_response = ''r'', used_bullets = used\<rparr>"

definition example_feedback :: "string \<Rightarrow> int option \<Rightarrow> FeedbackData" where
  "example_feedback ftype r =
     \<lparr>feedback_id = ''f1'', user_id = ''u1'', question = ''q'', model_response = ''r'',
      user_feedback = ''text'', feedback_type = ftype, rating = r, fb_timestamp = [],
      session_id = None, additional_notes = None\<rparr>"

definition example_update :: "string option \<Rightarrow> int \<Rightarrow> int \<Rightarrow> DeltaOperation" where
  "example_update bid h k =
     \<lparr>operation = ''UPDATE'', bullet_id = bid, op_content = None, op_section = None,
      helpful_increment = h, harmful_increment = k\<rparr>"

definition example_add :: "string option \<Rightarrow> DeltaOperation" where
  "example_add c =
     \<lparr>operation = ''ADD'', bullet_id = None, op_content = c, op_section = None,
      helpful_increment = 1, harmful_increment = 0\<rparr>"

definition example_delta :: "DeltaOperation list \<Rightarrow> DeltaUpdate" where
  "example_delta ops =
     \<lparr>operations = ops, timestamp = [], source_feedback_id = ''f1'',
      total_operations = length ops\<rparr>"


section \<open>Verified properties\<close>

subsection \<open>Search on an empty store\<close>

text \<open>
  Claim C9. Searching a store that holds no bullet returns the empty sequence, whatever
  the query and \<open>top_k\<close>, and sends nothing to the embedding provider: the log of
  embedding requests, like the rest of the state, is what it was.
\<close>

theorem C9_empty_store_search:
  "bullets st = [] \<Longrightarrow>
     retrieve_relevant env query top_k st = (Inr [], st) \<and>
     embed_log (snd (retrieve_relevant env query top_k st)) = embed_log st"
  by (simp add: retrieve_relevant_def retrieve_scored_def)

theorem C9_empty_store_search_witness:
  "bullets (example_store []) = [] \<and>
   retrieve_relevant example_env ''anything'' 5 (example_store []) = (Inr [], example_store [])"
  using C9_empty_store_search [of "example_store []" example_env "''anything''" 5]
  by (simp add: example_store_def)


subsection \<open>Substrings\<close>

lemma startswith_iff: "startswith s w \<longleftrightarrow> (\<exists>post. s = w @ post)"
proof
  assume "startswith s w"
  then have "s = w @ drop (length w) s"
    unfolding startswith_def by (metis append_take_drop_id)
  then show "\<exists>post. s = w @ post" ..
next
  assume "\<exists>post. s = w @ post"
  then show "startswith s w" by (auto simp: startswith_def)
qed

lemma py_in_iff: "py_in w s \<longleftrightarrow> occurs_in w s"
proof (induction s)
  case Nil
  show ?case by (auto simp: occurs_in_def)
next
  case (Cons c cs)
  have "occurs_in w (c # cs) \<longleftrightarrow> (\<exists>post. c # cs = w @ post) \<or> occurs_in w cs"
  proof
    assume "occurs_in w (c # cs)"
    then obtain pre post where e: "c # cs = pre @ w @ post" by (auto simp: occurs_in_def)
    show "(\<exists>post. c # cs = w @ post) \<or> occurs_in w cs"
    proof (cases pre)
      case Nil
      with e show ?thesis by auto
    next
      case (Cons a pre')
      with e have "cs = pre' @ w @ post" by simp
      then show ?thesis by (auto simp: occurs_in_def)
    qed
  next
    assume "(\<exists>post. c # cs = w @ post) \<or> occurs_in w cs"
    then show "occurs_in w (c # cs)"
    proof
      assume "\<exists>post. c # cs = w @ post"
      then obtain post where "c # cs = [] @ w @ post" by auto
      then show ?thesis unfolding occurs_in_def by blast
    next
      assume "occurs_in w cs"
      then obtain pre post where "cs = pre @ w @ post" by (auto simp: occurs_in_def)
      then have "c # cs = (c # pre) @ w @ post" by simp
      then show ?thesis unfolding occurs_in_def by blast
    qed
  qed
  with Cons show ?case by (simp add: startswith_iff)
qed

lemma any_in_iff: "any_in ws s \<longleftrightarrow> (\<exists>w \<in> set ws. occurs_in w s)"
  by (simp add: any_in_def list_ex_iff py_in_iff)


subsection \<open>Delta merge\<close>

lemma update_counters_unknown:
  "bullet_id_to_index st bid = None \<Longrightarrow>
   update_counters env bid f st = (Inr False, st\<lparr>calls := calls st @ [UpdateCounters bid f]\<rparr>)"
  by (simp add: update_counters_def Let_def)

lemma repeat_update_unknown:
  "bullet_id_to_index st bid = None \<Longrightarrow>
   repeat_update env n bid f st =
     (Inr (), st\<lparr>calls := calls st @ replicate n (UpdateCounters bid f)\<rparr>)"
proof (induction n arbitrary: st)
  case 0
  then show ?case by simp
next
  case (Suc n)
  then show ?case
    by (simp add: update_counters_unknown replicate_append_same)
qed


text \<open>
  Claim C10. \<open>merge_delta\<close> returns \<open>True\<close> whenever running the operations raises
  nothing, in particular for a delta without operations, which leaves the state as it
  was. \<open>update_counters\<close> on an id that is not in the dictionary returns \<open>False\<close> and
  changes nothing but the call log; so an \<open>UPDATE\<close> operation on such an id issues its
  unit calls, ignores their results and leaves bullets, index and dictionary as they
  were, and a delta made of that operation merges with \<open>True\<close>.
\<close>

theorem C10_merge_success:
  "(apply_operations env (operations delta) st = (Inr u, st')
      \<longrightarrow> merge_delta env delta st = (True, st')) \<and>
   (operations delta = [] \<longrightarrow> merge_delta env delta st = (True, st)) \<and>
   (bullet_id_to_index st bid = None
      \<longrightarrow> update_counters env bid flag st
            = (Inr False, st\<lparr>calls := calls st @ [UpdateCounters bid flag]\<rparr>)) \<and>
   (operation op = ''UPDATE'' \<and> bullet_id op = Some bid \<and> bid \<noteq> [] \<and>
      bullet_id_to_index st bid = None
      \<longrightarrow> apply_operation env op st
            = (Inr (), st\<lparr>calls := calls st
                 @ replicate (nat (helpful_increment op)) (UpdateCounters bid True)
                 @ replicate (nat (harmful_increment op)) (UpdateCounters bid False)\<rparr>) \<and>
          (operations delta = [op]
             \<longrightarrow> fst (merge_delta env delta st) = True \<and>
                 bullets (snd (merge_delta env delta st)) = bullets st \<and>
                 index (snd (merge_delta env delta st)) = index st \<and>
                 bullet_id_to_index (snd (merge_delta env delta st)) = bullet_id_to_index st))"
proof (intro conjI impI)
  assume "apply_operations env (operations delta) st = (Inr u, st')"
  then show "merge_delta env delta st = (True, st')"
    by (simp add: merge_delta_def)
next
  assume "operations delta = []"
  then show "merge_delta env delta st = (True, st)"
    by (simp add: merge_delta_def)
next
  assume "bullet_id_to_index st bid = None"
  then show "update_counters env bid flag st
            = (Inr False, st\<lparr>calls := calls st @ [UpdateCounters bid flag]\<rparr>)"
    by (rule update_counters_unknown)
next
  assume a: "operation op = ''UPDATE'' \<and> bullet_id op = Some bid \<and> bid \<noteq> [] \<and>
      bullet_id_to_index st bid = None"
  then show op: "apply_operation env op st
            = (Inr (), st\<lparr>calls := calls st
                 @ replicate (nat (helpful_increment op)) (UpdateCounters bid True)
                 @ replicate (nat (harmful_increment op)) (UpdateCounters bid False)\<rparr>)"
    by (simp add: apply_operation_def repeat_update_unknown)
  assume d: "operations delta = [op]"
  with op show "fst (merge_delta env delta st) = True"
    and "bullets (snd (merge_delta env delta st)) = bullets st"
    and "index (snd (merge_delta env delta st)) = index st"
    and "bullet_id_to_index (snd (merge_delta env delta st)) = bullet_id_to_index st"
    by (simp_all add: merge_delta_def)
qed

theorem C10_merge_success_witness:
  "bullet_id_to_index (example_store [example_bullet ''b1'' 1 0 ''ab'']) ''zz'' = None \<and>
   fst (merge_delta example_env (example_delta [example_update (Some ''zz'') 2 1])
          (example_store [example_bullet ''b1'' 1 0 ''ab''])) = True \<and>
   bullets (snd (merge_delta example_env (example_delta [example_update (Some ''zz'') 2 1])
          (example_store [example_bullet ''b1'' 1 0 ''ab''])))
     = [example_bullet ''b1'' 1 0 ''ab''] \<and>
   merge_delta example_env (example_delta []) (example_store [example_bullet ''b1'' 1 0 ''ab''])
     = (True, example_store [example_bullet ''b1'' 1 0 ''ab'']) \<and>
   merge_delta example_env (example_delta [example_update (Some ''b1'') 1 0, example_add (Some ''cd'')])
       (example_store [example_bullet ''b1'' 1 0 ''ab''])
     = (True, snd (apply_operations example_env
                     [example_update (Some ''b1'') 1 0, example_add (Some ''cd'')]
                     (example_store [example_bullet ''b1'' 1 0 ''ab''])))"
proof -
  let ?ops = "[example_update (Some ''b1'') 1 0, example_add (Some ''cd'')]"
  let ?S = "example_store [example_bullet ''b1'' 1 0 ''ab'']"
  let ?U = "example_update (Some ''zz'') 2 1"
  let ?D = "example_delta [?U]"
  have n: "bullet_id_to_index ?S ''zz'' = None"
    by (simp add: example_store_def example_bullet_def id_positions_def)
  have hyp: "operation ?U = ''UPDATE'' \<and> bullet_id ?U = Some ''zz'' \<and> ''zz'' \<noteq> []"
    by (simp add: example_update_def)
  have d: "operations ?D = [?U]" by (simp add: example_delta_def)
  have e: "operations (example_delta []) = []" by (simp add: example_delta_def)
  from C10_merge_success [of example_env ?D ?S "()" ?S "''zz''" True ?U] n hyp d
  have a: "fst (merge_delta example_env ?D ?S) = True \<and>
      bullets (snd (merge_delta example_env ?D ?S)) = bullets ?S"
    by blast
  from C10_merge_success [of example_env "example_delta []" ?S "()" ?S "''zz''" True ?U] e
  have b: "merge_delta example_env (example_delta []) ?S = (True, ?S)"
    by blast
  have c: "bullets ?S = [example_bullet ''b1'' 1 0 ''ab'']" by (simp add: example_store_def)
  have r: "apply_operations example_env (operations (example_delta ?ops)) ?S
      = (Inr (), snd (apply_operations example_env ?ops ?S))"
    unfolding example_delta_def by (rule prod_eqI) (code_simp, simp)
  from C10_merge_success [of example_env "example_delta ?ops" ?S "()"
      "snd (apply_operations example_env ?ops ?S)" "''zz''" True ?U] r
  have f: "merge_delta example_env (example_delta ?ops) ?S
      = (True, snd (apply_operations example_env ?ops ?S))"
    by blast
  from n a b c f show ?thesis by simp
qed


subsection \<open>Search\<close>













subsection \<open>Section labels\<close>

lemma determine_section_first_match:
  "determine_section insight =
     first_match section_categories ''General Strategies'' (lower (key_insight insight))"
  by (simp add: determine_section_def section_categories_def Let_def any_in_iff)

text \<open>
  Claim C2, as the code has it. For an insight with confidence above 0.5 for which the
  search for similar bullets returns no candidate, \<open>process_insights\<close> produces a delta
  with the single operation \<open>ADD\<close> whose section label is the first-match lookup of the
  lower-cased key insight in the ordered category table, \<open>General Strategies\<close> when
  no keyword occurs in it. For the text \<open>Always confirm units before calculating.\<close>
  no keyword occurs (\<open>calculating\<close> does not contain \<open>calculate\<close>), so the label of its
  \<open>ADD\<close> operation is \<open>General Strategies\<close>.
\<close>

theorem C2_add_section:
  fixes env :: "('v, 's::linorder) Env"
  shows
  "(confidence insight > 5 / 10 \<and>
      find_similar_bullets env (key_insight insight) st = (Inr [], st1)
      \<longrightarrow> process_insights env insight fid st
            = (Inr (new_delta env
                      [\<lparr>operation = ''ADD'', bullet_id = None,
                        op_content =
                          Some (format_bullet_content
                                  (format_bullet_content (key_insight insight) insight)
                                  insight),
                        op_section =
                          Some (first_match section_categories ''General Strategies''
                                  (lower (key_insight insight))),
                        helpful_increment = 1, harmful_increment = 0\<rparr>] fid st1), st1)) \<and>
   first_match section_categories ''General Strategies''
     (lower ''Always confirm units before calculating.'') = ''General Strategies''"
proof (intro conjI impI)
  assume "confidence insight > 5 / 10 \<and>
      find_similar_bullets env (key_insight insight) st = (Inr [], st1)"
  then show "process_insights env insight fid st
            = (Inr (new_delta env
                      [\<lparr>operation = ''ADD'', bullet_id = None,
                        op_content =
                          Some (format_bullet_content
                                  (format_bullet_content (key_insight insight) insight)
                                  insight),
                        op_section =
                          Some (first_match section_categories ''General Strategies''
                                  (lower (key_insight insight))),
                        helpful_increment = 1, harmful_increment = 0\<rparr>] fid st1), st1)"
    by (simp add: process_insights_def Let_def determine_section_first_match)
next
  have "determine_section
          (example_insight [] [] ''Always confirm units before calculating.'' (8 / 10))
        = ''General Strategies''"
    by code_simp
  then show "first_match section_categories ''General Strategies''
     (lower ''Always confirm units before calculating.'') = ''General Strategies''"
    by (simp add: determine_section_first_match example_insight_def)
qed

theorem C2_add_section_witness:
  "process_insights example_env
     (example_insight [] ''Check the units.'' ''Always confirm units before calculating.'' (8 / 10))
     ''f1'' (example_store [])
   = (Inr (new_delta example_env
             [\<lparr>operation = ''ADD'', bullet_id = None,
               op_content = Some ''Always confirm units before calculating.'',
               op_section = Some ''General Strategies'',
               helpful_increment = 1, harmful_increment = 0\<rparr>] ''f1'' (example_store [])),
      example_store [])"
proof -
  let ?I = "example_insight [] ''Check the units.''
              ''Always confirm units before calculating.'' (8 / 10)"
  have c: "confidence ?I > 5 / 10" by (simp add: example_insight_def)
  have f: "find_similar_bullets example_env (key_insight ?I) (example_store [])
      = (Inr [], example_store [])"
    by (simp add: find_similar_bullets_def example_store_def)
  have k: "key_insight ?I = ''Always confirm units before calculating.''"
    by (simp add: example_insight_def)
  have fm: "format_bullet_content (format_bullet_content (key_insight ?I) ?I) ?I
      = ''Always confirm units before calculating.''"
    by code_simp
  from C2_add_section [of ?I example_env "example_store []" "example_store []" "''f1''"] c f
  show ?thesis unfolding fm unfolding k by simp
qed

text \<open>
  The claim as written fails twice. The \<open>ADD\<close> operation for
  \<open>Always confirm units before calculating.\<close> does not carry the section
  \<open>Calculation Strategies\<close>, and the one for a text without any keyword (\<open>Be brief.\<close>)
  does not carry the section \<open>General\<close>.
\<close>

theorem C2_add_section_counterexample:
  "map op_section
     (case fst (process_insights example_env
                  (example_insight [] ''Check the units.''
                     ''Always confirm units before calculating.'' (8 / 10))
                  ''f1'' (example_store [])) of
        Inl e \<Rightarrow> [] | Inr delta \<Rightarrow> operations delta)
   = [Some ''General Strategies''] \<and>
   Some ''General Strategies'' \<noteq> Some ''Calculation Strategies'' \<and>
   map op_section
     (case fst (process_insights example_env
                  (example_insight [] ''Be brief in answers.'' ''Be brief.'' (8 / 10))
                  ''f1'' (example_store [])) of
        Inl e \<Rightarrow> [] | Inr delta \<Rightarrow> operations delta)
   = [Some ''General Strategies''] \<and>
   Some ''General Strategies'' \<noteq> Some ''General''"
  by code_simp


subsection \<open>The path the pipeline takes through the curator\<close>

lemma success_branch_positive:
  "curator_path (Some (extract_insights_from_success q resp ftype r)) = PositivePath"
  apply (simp add: curator_path_def extract_insights_from_success_def Let_def)
  apply (intro conjI impI)
   apply code_simp+
  done

text \<open>
  Claim C3, as the code has it. The branch \<open>_run_curator\<close> takes is decided by the
  error-identification text of the reflector's insight and by nothing else. For a text
  that, lower-cased, does not contain \<open>incorrect\<close>: it is the positive-feedback path when
  the text contains \<open>success\<close> or \<open>correct\<close>, otherwise the negative-feedback path when
  it contains \<open>error\<close> or \<open>wrong\<close>, otherwise the general path, whose exception, if
  any, gives the delta without operations; without an insight the delta has no
  operations. So two runs whose insights carry the same error-identification text take
  the same path, whatever their feedback records. The feedback's type and rating act
  only through the reflector: for a feedback that is not \<open>incorrect\<close>, is rated above 2
  and is \<open>correct\<close> or rated at least 4, the reflector builds its insight without the
  language model and the path is the positive one.
\<close>

theorem C3_path_from_insight_text:
  fixes env :: "('v, 's::linorder) Env"
  shows
  "(\<not> occurs_in ''incorrect'' (lower (error_identification i)) \<longrightarrow>
      ((occurs_in ''success'' (lower (error_identification i)) \<or>
        occurs_in ''correct'' (lower (error_identification i))) \<longrightarrow>
         curator_path (Some i) = PositivePath \<and>
         run_curator env (Some i) fid st = (process_positive_feedback env i fid st, st)) \<and>
      (\<not> (occurs_in ''success'' (lower (error_identification i)) \<or>
           occurs_in ''correct'' (lower (error_identification i))) \<and>
       (occurs_in ''error'' (lower (error_identification i)) \<or>
        occurs_in ''wrong'' (lower (error_identification i))) \<longrightarrow>
         curator_path (Some i) = NegativePath \<and>
         run_curator env (Some i) fid st = (process_negative_feedback env i fid st, st)) \<and>
      (\<not> (occurs_in ''success'' (lower (error_identification i)) \<or>
           occurs_in ''correct'' (lower (error_identification i)) \<or>
           occurs_in ''error'' (lower (error_identification i)) \<or>
           occurs_in ''wrong'' (lower (error_identification i))) \<longrightarrow>
         curator_path (Some i) = GeneralPath \<and>
         run_curator env (Some i) fid st
           = (case process_insights env i fid st of
                (Inl e, st1) \<Rightarrow> (new_delta env [] fid st1, st1)
              | (Inr delta, st1) \<Rightarrow> (delta, st1)))) \<and>
   curator_path None = NoInsight \<and>
   run_curator env None fid st = (new_delta env [] fid st, st) \<and>
   (run_reflector a1 c1 f1 = Some i1 \<and> run_reflector a2 c2 f2 = Some i2 \<and>
      error_identification i1 = error_identification i2
      \<longrightarrow> pipeline_path a1 c1 f1 = pipeline_path a2 c2 f2) \<and>
   (feedback_type f \<noteq> ''incorrect'' \<and> rating f = Some r \<and> 2 < r \<and>
      (feedback_type f = ''correct'' \<or> 4 \<le> r)
      \<longrightarrow> pipeline_path a c f = PositivePath)"
proof -
  have rule: "\<not> occurs_in ''incorrect'' (lower (error_identification i)) \<longrightarrow>
      ((occurs_in ''success'' (lower (error_identification i)) \<or>
        occurs_in ''correct'' (lower (error_identification i))) \<longrightarrow>
         curator_path (Some i) = PositivePath \<and>
         run_curator env (Some i) fid st = (process_positive_feedback env i fid st, st)) \<and>
      (\<not> (occurs_in ''success'' (lower (error_identification i)) \<or>
           occurs_in ''correct'' (lower (error_identification i))) \<and>
       (occurs_in ''error'' (lower (error_identification i)) \<or>
        occurs_in ''wrong'' (lower (error_identification i))) \<longrightarrow>
         curator_path (Some i) = NegativePath \<and>
         run_curator env (Some i) fid st = (process_negative_feedback env i fid st, st)) \<and>
      (\<not> (occurs_in ''success'' (lower (error_identification i)) \<or>
           occurs_in ''correct'' (lower (error_identification i)) \<or>
           occurs_in ''error'' (lower (error_identification i)) \<or>
           occurs_in ''wrong'' (lower (error_identification i))) \<longrightarrow>
         curator_path (Some i) = GeneralPath \<and>
         run_curator env (Some i) fid st
           = (case process_insights env i fid st of
                (Inl e, st1) \<Rightarrow> (new_delta env [] fid st1, st1)
              | (Inr delta, st1) \<Rightarrow> (delta, st1)))"
    by (simp add: curator_path_def run_curator_def Let_def py_in_iff)
  have none: "curator_path None = NoInsight \<and>
      run_curator env None fid st = (new_delta env [] fid st, st)"
    by (simp add: curator_path_def run_curator_def)
  have same: "run_reflector a1 c1 f1 = Some i1 \<and> run_reflector a2 c2 f2 = Some i2 \<and>
      error_identification i1 = error_identification i2
      \<longrightarrow> pipeline_path a1 c1 f1 = pipeline_path a2 c2 f2"
    by (simp add: pipeline_path_def curator_path_def)
  have short: "feedback_type f \<noteq> ''incorrect'' \<and> rating f = Some r \<and> 2 < r \<and>
      (feedback_type f = ''correct'' \<or> 4 \<le> r)
      \<longrightarrow> pipeline_path a c f = PositivePath"
    using success_branch_positive
    by (auto simp: pipeline_path_def run_reflector_def)
  from rule none same short show ?thesis by blast
qed


theorem C3_path_from_insight_text_witness:
  "curator_path (Some (example_insight ''A successful answer'' ''keep'' ''Keep it.'' (8 / 10)))
     = PositivePath \<and>
   run_curator example_env
       (Some (example_insight ''A successful answer'' ''keep'' ''Keep it.'' (8 / 10)))
       ''f1'' (example_store [])
     = (process_positive_feedback example_env
          (example_insight ''A successful answer'' ''keep'' ''Keep it.'' (8 / 10))
          ''f1'' (example_store []), example_store []) \<and>
   curator_path (Some (example_insight ''Wrong units'' ''check units'' ''Check units.'' (8 / 10)))
     = NegativePath \<and>
   curator_path (Some (example_insight ''Missing detail'' ''add detail'' ''Add detail.'' (8 / 10)))
     = GeneralPath \<and>
   pipeline_path
     (\<lambda>c f. Some (example_insight ''Wrong units'' ''check units'' ''Check units.'' (8 / 10)))
     (example_chat []) (example_feedback ''partially_correct'' (Some 3))
   = pipeline_path
     (\<lambda>c f. Some (example_insight ''Wrong units'' ''convert first'' ''Convert.'' (6 / 10)))
     (example_chat [''b1'']) (example_feedback ''incorrect'' (Some 1)) \<and>
   pipeline_path (\<lambda>c f. None) (example_chat []) (example_feedback ''correct'' (Some 5))
   = PositivePath"
proof -
  let ?P = "example_insight ''A successful answer'' ''keep'' ''Keep it.'' (8 / 10)"
  let ?N = "example_insight ''Wrong units'' ''check units'' ''Check units.'' (8 / 10)"
  let ?N2 = "example_insight ''Wrong units'' ''convert first'' ''Convert.'' (6 / 10)"
  let ?G = "example_insight ''Missing detail'' ''add detail'' ''Add detail.'' (8 / 10)"
  let ?a1 = "\<lambda>(c::ChatData) (f::FeedbackData). Some ?N"
  let ?a2 = "\<lambda>(c::ChatData) (f::FeedbackData). Some ?N2"
  have p1: "\<not> py_in ''incorrect'' (lower (error_identification ?P))" by code_simp
  have p2: "py_in ''success'' (lower (error_identification ?P))" by code_simp
  have n1: "\<not> py_in ''incorrect'' (lower (error_identification ?N))" by code_simp
  have n2: "\<not> py_in ''success'' (lower (error_identification ?N))" by code_simp
  have n3: "\<not> py_in ''correct'' (lower (error_identification ?N))" by code_simp
  have n4: "py_in ''wrong'' (lower (error_identification ?N))" by code_simp
  have g1: "\<not> py_in ''incorrect'' (lower (error_identification ?G))" by code_simp
  have g2: "\<not> py_in ''success'' (lower (error_identification ?G))" by code_simp
  have g3: "\<not> py_in ''correct'' (lower (error_identification ?G))" by code_simp
  have g4: "\<not> py_in ''error'' (lower (error_identification ?G))" by code_simp
  have g5: "\<not> py_in ''wrong'' (lower (error_identification ?G))" by code_simp
  have r1: "run_reflector ?a1 (example_chat []) (example_feedback ''partially_correct'' (Some 3))
      = Some ?N"
    by (simp add: run_reflector_def example_feedback_def)
  have r2: "run_reflector ?a2 (example_chat [''b1'']) (example_feedback ''incorrect'' (Some 1))
      = Some ?N2"
    by (simp add: run_reflector_def example_feedback_def)
  have e: "error_identification ?N = error_identification ?N2"
    by (simp add: example_insight_def)
  have s: "feedback_type (example_feedback ''correct'' (Some 5)) \<noteq> ''incorrect'' \<and>
      rating (example_feedback ''correct'' (Some 5)) = Some 5 \<and> (2::int) < 5 \<and>
      (feedback_type (example_feedback ''correct'' (Some 5)) = ''correct'' \<or> (4::int) \<le> 5)"
    by (simp add: example_feedback_def)
  from C3_path_from_insight_text [where i = ?P and env = example_env and fid = "''f1''"
      and st = "example_store []" and ?a1.0 = ?a1 and ?c1.0 = "example_chat []"
      and ?f1.0 = "example_feedback ''partially_correct'' (Some 3)" and ?i1.0 = ?N
      and ?a2.0 = ?a2 and ?c2.0 = "example_chat [''b1'']"
      and ?f2.0 = "example_feedback ''incorrect'' (Some 1)" and ?i2.0 = ?N2
      and f = "example_feedback ''correct'' (Some 5)" and r = 5 and a = "\<lambda>c f. None"
      and c = "example_chat []"]
    p1 p2 r1 r2 e s
  have A: "curator_path (Some ?P) = PositivePath \<and>
      run_curator example_env (Some ?P) ''f1'' (example_store [])
        = (process_positive_feedback example_env ?P ''f1'' (example_store []), example_store []) \<and>
      pipeline_path ?a1 (example_chat []) (example_feedback ''partially_correct'' (Some 3))
        = pipeline_path ?a2 (example_chat [''b1'']) (example_feedback ''incorrect'' (Some 1)) \<and>
      pipeline_path (\<lambda>c f. None) (example_chat []) (example_feedback ''correct'' (Some 5))
        = PositivePath"
    unfolding py_in_iff [symmetric] by blast
  from C3_path_from_insight_text [where i = ?N and env = example_env and fid = "''f1''"
      and st = "example_store []"] n1 n2 n3 n4
  have B: "curator_path (Some ?N) = NegativePath"
    unfolding py_in_iff [symmetric] by blast
  from C3_path_from_insight_text [where i = ?G and env = example_env and fid = "''f1''"
      and st = "example_store []"] g1 g2 g3 g4 g5
  have C: "curator_path (Some ?G) = GeneralPath"
    unfolding py_in_iff [symmetric] by blast
  from A B C show ?thesis by blast
qed

text \<open>
  The claim as written fails: two runs with the same feedback record (type
  \<open>partially_correct\<close>, rating 3) whose insights differ in their text take different
  paths, the negative one and the general one.
\<close>

theorem C3_path_counterexample:
  "pipeline_path
     (\<lambda>c f. Some (example_insight ''Wrong units'' ''check units'' ''Check units.'' (8 / 10)))
     (example_chat []) (example_feedback ''partially_correct'' (Some 3)) = NegativePath \<and>
   pipeline_path
     (\<lambda>c f. Some (example_insight ''Missing detail'' ''check units'' ''Check units.'' (8 / 10)))
     (example_chat []) (example_feedback ''partially_correct'' (Some 3)) = GeneralPath \<and>
   NegativePath \<noteq> GeneralPath"
  by code_simp


subsection \<open>Consistent stores\<close>

lemma id_positions_Some:
  assumes d: "distinct (map id' bs)"
  shows "id_positions bs i = Some p \<longleftrightarrow> p < length bs \<and> id' (bs ! p) = i"
proof -
  have "distinct (map fst (zip (map id' bs) [0..<length bs]))"
    using d by (simp add: map_fst_zip)
  then have "id_positions bs i = Some p \<longleftrightarrow> (i, p) \<in> set (zip (map id' bs) [0..<length bs])"
    unfolding id_positions_def by (metis map_of_eq_Some_iff)
  also have "\<dots> \<longleftrightarrow> p < length bs \<and> id' (bs ! p) = i"
  proof
    assume "(i, p) \<in> set (zip (map id' bs) [0..<length bs])"
    then show "p < length bs \<and> id' (bs ! p) = i" by (auto simp: set_zip)
  next
    assume h: "p < length bs \<and> id' (bs ! p) = i"
    then have "map id' bs ! p = i \<and> [0..<length bs] ! p = p \<and> p < length bs" by simp
    then show "(i, p) \<in> set (zip (map id' bs) [0..<length bs])"
      unfolding set_zip by force
  qed
  finally show ?thesis .
qed

lemma store_ok_lookup:
  "store_ok st \<Longrightarrow>
   bullet_id_to_index st i = Some p \<longleftrightarrow> p < length (bullets st) \<and> id' (bullets st ! p) = i"
  by (simp add: store_ok_def id_positions_Some)

lemma id_positions_cong:
  "map id' bs = map id' cs \<Longrightarrow> id_positions bs = id_positions cs"
  by (metis id_positions_def length_map)

lemma update_counters_ok:
  assumes ok: "store_ok st"
  shows "\<exists>r st'. update_counters env bid f st = (r, st') \<and> store_ok st' \<and>
           (r = Inr False \<or> r = Inr True \<or> (r = Inl OSError \<and> save_fails env (saves st))) \<and>
           index st' = index st \<and> bullet_id_to_index st' = bullet_id_to_index st \<and>
           calls st' = calls st @ [UpdateCounters bid f] \<and>
           length (bullets st') = length (bullets st) \<and>
           (\<forall>p<length (bullets st).
              id' (bullets st' ! p) = id' (bullets st ! p) \<and>
              content (bullets st' ! p) = content (bullets st ! p) \<and>
              section' (bullets st' ! p) = section' (bullets st ! p) \<and>
              helpful (bullets st' ! p) = helpful (bullets st ! p)
                + (if f \<and> id' (bullets st ! p) = bid then 1 else 0) \<and>
              harmful (bullets st' ! p) = harmful (bullets st ! p)
                + (if \<not> f \<and> id' (bullets st ! p) = bid then 1 else 0))"
proof (cases "bullet_id_to_index st bid")
  case None
  have no: "id' (bullets st ! p) \<noteq> bid" if "p < length (bullets st)" for p
    using store_ok_lookup [OF ok, of bid p] None that by simp
  let ?st' = "st\<lparr>calls := calls st @ [UpdateCounters bid f]\<rparr>"
  have run: "update_counters env bid f st = (Inr False, ?st')"
    using None by (simp add: update_counters_def Let_def)
  have ok': "store_ok ?st'"
    using ok by (simp add: store_ok_def)
  have vals: "\<forall>p<length (bullets st).
              id' (bullets ?st' ! p) = id' (bullets st ! p) \<and>
              content (bullets ?st' ! p) = content (bullets st ! p) \<and>
              section' (bullets ?st' ! p) = section' (bullets st ! p) \<and>
              helpful (bullets ?st' ! p) = helpful (bullets st ! p)
                + (if f \<and> id' (bullets st ! p) = bid then 1 else 0) \<and>
              harmful (bullets ?st' ! p) = harmful (bullets st ! p)
                + (if \<not> f \<and> id' (bullets st ! p) = bid then 1 else 0)"
    using no by simp
  from run ok' vals show ?thesis by simp
next
  case (Some q)
  have q: "q < length (bullets st)" "id' (bullets st ! q) = bid"
    using store_ok_lookup [OF ok, of bid q] Some by simp_all
  have uniq: "p = q" if "p < length (bullets st)" "id' (bullets st ! p) = bid" for p
    using store_ok_lookup [OF ok, of bid p] Some that by simp
  let ?b = "bullets st ! q"
  let ?b2 = "(if f then ?b\<lparr>helpful := helpful ?b + 1\<rparr> else ?b\<lparr>harmful := harmful ?b + 1\<rparr>)
               \<lparr>last_used := now env (length (calls st))\<rparr>"
  let ?st' = "st\<lparr>calls := calls st @ [UpdateCounters bid f],
                 bullets := (bullets st)[q := ?b2], saves := Suc (saves st)\<rparr>"
  let ?r = "if save_fails env (saves st) then Inl OSError else Inr True"
  have run: "update_counters env bid f st = (?r, ?st')"
    using Some q by (simp add: update_counters_def save_playbook_def Let_def)
  have idb: "id' ?b2 = id' ?b" by simp
  have ids: "map id' ((bullets st)[q := ?b2]) = map id' (bullets st)"
    unfolding map_update idb using q(1) by (simp add: list_update_same_conv)
  have ok': "store_ok ?st'"
    using ok ids id_positions_cong [OF ids] by (simp add: store_ok_def)
  have vals: "id' (bullets ?st' ! p) = id' (bullets st ! p) \<and>
              content (bullets ?st' ! p) = content (bullets st ! p) \<and>
              section' (bullets ?st' ! p) = section' (bullets st ! p) \<and>
              helpful (bullets ?st' ! p) = helpful (bullets st ! p)
                + (if f \<and> id' (bullets st ! p) = bid then 1 else 0) \<and>
              harmful (bullets ?st' ! p) = harmful (bullets st ! p)
                + (if \<not> f \<and> id' (bullets st ! p) = bid then 1 else 0)"
    if "p < length (bullets st)" for p
  proof (cases "p = q")
    case True
    then show ?thesis using q by simp
  next
    case False
    then have "id' (bullets st ! p) \<noteq> bid" using uniq that by blast
    with False show ?thesis by simp
  qed
  have res: "?r = Inr False \<or> ?r = Inr True \<or> (?r = Inl OSError \<and> save_fails env (saves st))"
    by simp
  from run ok' vals res show ?thesis by simp
qed


subsection \<open>What a merge leaves behind\<close>

lemma take_prefix_trans:
  assumes "take (length a) b = a" and "take (length b) c = b"
  shows "take (length a) c = a"
proof -
  have "length (take (length a) b) = length a" using assms(1) by simp
  then have "length a \<le> length b" by simp
  then have "take (length a) c = take (length a) (take (length b) c)" by (simp add: min_def)
  with assms show ?thesis by simp
qed

lemma same_or_more_refl: "same_or_more b b"
  by (simp add: same_or_more_def)

lemma same_or_more_trans: "same_or_more a b \<Longrightarrow> same_or_more b c \<Longrightarrow> same_or_more a c"
  by (auto simp: same_or_more_def)

lemma grows_refl: "grows st st"
  by (simp add: grows_def list_all2_refl same_or_more_refl)

lemma grows_trans:
  assumes "grows a b" and "grows b c"
  shows "grows a c"
proof -
  from assms have ca: "take (length (calls a)) (calls b) = calls a"
    and cb: "take (length (calls b)) (calls c) = calls b"
    and ea: "take (length (embed_log a)) (embed_log b) = embed_log a"
    and eb: "take (length (embed_log b)) (embed_log c) = embed_log b"
    and ia: "take (length (index a)) (index b) = index a"
    and ib: "take (length (index b)) (index c) = index b"
    and da: "dom (bullet_id_to_index a) \<subseteq> dom (bullet_id_to_index b)"
    and db: "dom (bullet_id_to_index b) \<subseteq> dom (bullet_id_to_index c)"
    and sa: "saves a \<le> saves b" and sb: "saves b \<le> saves c"
    and la: "length (bullets a) \<le> length (bullets b)"
    and lb: "length (bullets b) \<le> length (bullets c)"
    and ba: "list_all2 same_or_more (bullets a) (take (length (bullets a)) (bullets b))"
    and bb: "list_all2 same_or_more (bullets b) (take (length (bullets b)) (bullets c))"
    by (auto simp: grows_def)
  have c1: "take (length (calls a)) (calls c) = calls a"
    using ca cb by (rule take_prefix_trans)
  have c2: "take (length (embed_log a)) (embed_log c) = embed_log a"
    using ea eb by (rule take_prefix_trans)
  have c3: "take (length (index a)) (index c) = index a"
    using ia ib by (rule take_prefix_trans)
  have c4: "list_all2 same_or_more (bullets a) (take (length (bullets a)) (bullets c))"
    using ba bb la lb
    by (auto simp: list_all2_conv_all_nth intro: same_or_more_trans)
  from c1 c2 c3 c4 da db sa sb la lb show ?thesis by (auto simp: grows_def)
qed

lemma grows_update_counters:
  "update_counters env bid f st = (r, st') \<Longrightarrow> grows st st'"
  by (auto simp: update_counters_def save_playbook_def Let_def grows_def
      list_all2_conv_all_nth nth_list_update same_or_more_def
      split: option.splits if_splits)

lemma grows_add_bullet:
  "add_bullet env c s st = (r, st') \<Longrightarrow> grows st st'"
  by (auto simp: add_bullet_def get_embedding_def save_playbook_def Let_def grows_def
      list_all2_refl same_or_more_refl split: option.splits if_splits)

lemma grows_repeat_update:
  "repeat_update env n bid f st = (r, st') \<Longrightarrow> grows st st'"
proof (induction n arbitrary: st)
  case 0
  then show ?case by (simp add: grows_refl)
next
  case (Suc n)
  then show ?case
    by (auto split: prod.splits sum.splits intro: grows_trans dest: grows_update_counters)
qed

lemma grows_apply_operation:
  "apply_operation env op st = (r, st') \<Longrightarrow> grows st st'"
  by (auto simp: apply_operation_def grows_refl split: if_splits prod.splits sum.splits option.splits
      dest: grows_add_bullet grows_repeat_update intro: grows_trans)

lemma grows_apply_operations:
  "apply_operations env ops st = (r, st') \<Longrightarrow> grows st st'"
proof (induction ops arbitrary: st)
  case Nil
  then show ?case by (simp add: grows_refl)
next
  case (Cons op ops)
  then show ?case
    by (auto split: prod.splits sum.splits dest: grows_apply_operation intro: grows_trans)
qed


subsection \<open>The calls of a merge\<close>

lemma update_counters_calls:
  "update_counters env bid f st = (r, st') \<Longrightarrow> calls st' = calls st @ [UpdateCounters bid f]"
  by (auto simp: update_counters_def save_playbook_def Let_def split: option.splits if_splits)

lemma add_bullet_calls:
  "add_bullet env c s st = (r, st') \<Longrightarrow> calls st' = calls st @ [AddBullet c s]"
  by (auto simp: add_bullet_def get_embedding_def save_playbook_def Let_def
      split: option.splits if_splits)

lemma repeat_update_calls:
  "repeat_update env n bid f st = (r, st') \<Longrightarrow>
   \<exists>m\<le>n. calls st' = calls st @ replicate m (UpdateCounters bid f) \<and>
          (case r of Inr u \<Rightarrow> m = n | Inl e \<Rightarrow> 0 < m)"
proof (induction n arbitrary: st)
  case 0
  then show ?case by auto
next
  case (Suc n)
  obtain r1 st1 where u: "update_counters env bid f st = (r1, st1)"
    by (cases "update_counters env bid f st")
  have c1: "calls st1 = calls st @ [UpdateCounters bid f]"
    using update_counters_calls [OF u] .
  show ?case
  proof (cases r1)
    case (Inl e)
    with u Suc.prems have "r = Inl e" "st' = st1" by auto
    with c1 have "calls st' = calls st @ replicate 1 (UpdateCounters bid f) \<and>
          (case r of Inr u \<Rightarrow> 1 = Suc n | Inl e \<Rightarrow> 0 < (1::nat))"
      by simp
    then show ?thesis by (intro exI [of _ 1]) simp
  next
    case (Inr b)
    with u Suc.prems have "repeat_update env n bid f st1 = (r, st')" by simp
    from Suc.IH [OF this] obtain m where
      m: "m \<le> n" "calls st' = calls st1 @ replicate m (UpdateCounters bid f)"
         "case r of Inr u \<Rightarrow> m = n | Inl e \<Rightarrow> 0 < m"
      by blast
    from m c1 have "calls st' = calls st @ replicate (Suc m) (UpdateCounters bid f)"
      by (simp add: replicate_append_same)
    moreover from m have "case r of Inr u \<Rightarrow> Suc m = Suc n | Inl e \<Rightarrow> 0 < Suc m"
      by (cases r) auto
    ultimately show ?thesis using m(1) by (intro exI [of _ "Suc m"]) simp
  qed
qed

lemma apply_operation_calls:
  "apply_operation env op st = (r, st') \<Longrightarrow>
   \<exists>m\<le>length (op_calls op). calls st' = calls st @ take m (op_calls op) \<and>
          (case r of Inr u \<Rightarrow> m = length (op_calls op) | Inl e \<Rightarrow> 0 < m)"
proof -
  assume run: "apply_operation env op st = (r, st')"
  consider (add) "operation op = ''ADD''"
    | (upd) bid where "operation op = ''UPDATE''" "bullet_id op = Some bid" "bid \<noteq> []"
    | (noid) "operation op = ''UPDATE''" "bullet_id op = None \<or> bullet_id op = Some []"
    | (other) "operation op \<noteq> ''ADD''" "operation op \<noteq> ''UPDATE''"
    by (cases "bullet_id op") auto
  then show ?thesis
  proof cases
    case add
    let ?s = "case op_section op of None \<Rightarrow> ''General''
              | Some s \<Rightarrow> if s = [] then ''General'' else s"
    obtain r1 st1 where a: "add_bullet env (op_content op) ?s st = (r1, st1)"
      by (cases "add_bullet env (op_content op) ?s st")
    from run add a have st: "st' = st1" and r: "case r of Inr u \<Rightarrow> True | Inl e \<Rightarrow> True"
      by (auto simp: apply_operation_def split: sum.splits)
    from add_bullet_calls [OF a] st add
    have "calls st' = calls st @ take 1 (op_calls op)" by (simp add: op_calls_def)
    moreover have "length (op_calls op) = 1" using add by (simp add: op_calls_def)
    ultimately show ?thesis by (intro exI [of _ 1]) (auto split: sum.splits)
  next
    case upd
    let ?h = "nat (helpful_increment op)"
    let ?k = "nat (harmful_increment op)"
    have oc: "op_calls op = replicate ?h (UpdateCounters bid True)
                 @ replicate ?k (UpdateCounters bid False)"
      using upd by (simp add: op_calls_def)
    obtain r1 st1 where h: "repeat_update env ?h bid True st = (r1, st1)"
      by (cases "repeat_update env ?h bid True st")
    from repeat_update_calls [OF h] obtain m1 where
      m1: "m1 \<le> ?h" "calls st1 = calls st @ replicate m1 (UpdateCounters bid True)"
          "case r1 of Inr u \<Rightarrow> m1 = ?h | Inl e \<Rightarrow> 0 < m1"
      by blast
    show ?thesis
    proof (cases r1)
      case (Inl e)
      with run upd h have "r = Inl e" "st' = st1"
        by (auto simp: apply_operation_def)
      moreover from m1 have "take m1 (op_calls op) = replicate m1 (UpdateCounters bid True)"
        unfolding oc by simp
      moreover from m1 have "m1 \<le> length (op_calls op)" unfolding oc by simp
      ultimately show ?thesis using m1 Inl by (intro exI [of _ m1]) simp
    next
      case (Inr u)
      with run upd h have k: "repeat_update env ?k bid False st1 = (r, st')"
        by (auto simp: apply_operation_def)
      from repeat_update_calls [OF k] obtain m2 where
        m2: "m2 \<le> ?k" "calls st' = calls st1 @ replicate m2 (UpdateCounters bid False)"
            "case r of Inr u \<Rightarrow> m2 = ?k | Inl e \<Rightarrow> 0 < m2"
        by blast
      from m1 Inr have mh: "m1 = ?h" by simp
      have t: "take (?h + m2) (op_calls op)
          = replicate ?h (UpdateCounters bid True) @ replicate m2 (UpdateCounters bid False)"
        unfolding oc using m2(1) by simp
      have c: "calls st' = calls st @ take (?h + m2) (op_calls op)"
        unfolding t using m1 m2 mh by simp
      have l: "?h + m2 \<le> length (op_calls op)" unfolding oc using m2(1) by simp
      have e: "case r of Inr u \<Rightarrow> ?h + m2 = length (op_calls op) | Inl e \<Rightarrow> 0 < ?h + m2"
        using m2(3) unfolding oc by (cases r) auto
      from c l e show ?thesis by (intro exI [of _ "?h + m2"]) simp
    qed
  next
    case noid
    with run have "r = Inr ()" "st' = st" by (auto simp: apply_operation_def)
    moreover from noid have "op_calls op = []" by (auto simp: op_calls_def)
    ultimately show ?thesis by simp
  next
    case other
    with run have "r = Inr ()" "st' = st" by (auto simp: apply_operation_def)
    moreover from other have "op_calls op = []" by (auto simp: op_calls_def)
    ultimately show ?thesis by simp
  qed
qed

lemma apply_operations_calls:
  "apply_operations env ops st = (Inr u, st') \<Longrightarrow>
   calls st' = calls st @ concat (map op_calls ops)"
proof (induction ops arbitrary: st)
  case Nil
  then show ?case by simp
next
  case (Cons op ops)
  obtain r1 st1 where a: "apply_operation env op st = (r1, st1)"
    by (cases "apply_operation env op st")
  with Cons.prems obtain v where r1: "r1 = Inr v" and rest: "apply_operations env ops st1 = (Inr u, st')"
    by (cases r1) auto
  from apply_operation_calls [OF a] r1 have "calls st1 = calls st @ op_calls op" by auto
  with Cons.IH [OF rest] show ?case by simp
qed

lemma apply_operations_append:
  "apply_operations env (ops1 @ ops2) st =
     (case apply_operations env ops1 st of
        (Inl e, st1) \<Rightarrow> (Inl e, st1)
      | (Inr u, st1) \<Rightarrow> apply_operations env ops2 st1)"
  by (induction ops1 arbitrary: st) (auto split: prod.splits sum.splits)


subsection \<open>What the operations of a delta do\<close>

lemma add_bullet_effect:
  assumes "add_bullet env (Some c) s st = (Inr i, st')"
  shows "i = ''ctx-'' @ take 8 (uuid4 env (length (calls st))) \<and>
     bullets st' = bullets st @
       [\<lparr>id' = ''ctx-'' @ take 8 (uuid4 env (length (calls st))), helpful = 0, harmful = 0, content = c,
         section' = s, created_at = now env (length (calls st)),
         last_used = now env (length (calls st))\<rparr>] \<and>
     index st' = index st @ [normalize env (embed_query env (length (embed_log st)) c)] \<and>
     bullet_id_to_index st' =
       (bullet_id_to_index st)(''ctx-'' @ take 8 (uuid4 env (length (calls st))) \<mapsto> length (bullets st)) \<and>
     embed_log st' = embed_log st @ [c]"
  using assms
  by (auto simp: add_bullet_def get_embedding_def save_playbook_def Let_def split: if_splits)

lemma repeat_update_ok:
  assumes "store_ok st" and "repeat_update env n bid f st = (Inr u, st')"
  shows "store_ok st' \<and> index st' = index st \<and>
         bullet_id_to_index st' = bullet_id_to_index st \<and>
         length (bullets st') = length (bullets st) \<and>
         (\<forall>p<length (bullets st).
            id' (bullets st' ! p) = id' (bullets st ! p) \<and>
            content (bullets st' ! p) = content (bullets st ! p) \<and>
            section' (bullets st' ! p) = section' (bullets st ! p) \<and>
            helpful (bullets st' ! p) = helpful (bullets st ! p)
              + (if f \<and> id' (bullets st ! p) = bid then int n else 0) \<and>
            harmful (bullets st' ! p) = harmful (bullets st ! p)
              + (if \<not> f \<and> id' (bullets st ! p) = bid then int n else 0))"
  using assms
proof (induction n arbitrary: st)
  case 0
  then show ?case by simp
next
  case (Suc n)
  obtain r1 st1 where
    run: "update_counters env bid f st = (r1, st1)" and ok1: "store_ok st1" and
    ix: "index st1 = index st" "bullet_id_to_index st1 = bullet_id_to_index st" and
    len: "length (bullets st1) = length (bullets st)" and
    vals: "\<forall>p<length (bullets st).
              id' (bullets st1 ! p) = id' (bullets st ! p) \<and>
              content (bullets st1 ! p) = content (bullets st ! p) \<and>
              section' (bullets st1 ! p) = section' (bullets st ! p) \<and>
              helpful (bullets st1 ! p) = helpful (bullets st ! p)
                + (if f \<and> id' (bullets st ! p) = bid then 1 else 0) \<and>
              harmful (bullets st1 ! p) = harmful (bullets st ! p)
                + (if \<not> f \<and> id' (bullets st ! p) = bid then 1 else 0)"
    using update_counters_ok [OF Suc.prems(1), of env bid f] by blast
  from run Suc.prems(2) have rest: "repeat_update env n bid f st1 = (Inr u, st')"
    by (cases r1) auto
  from Suc.IH [OF ok1 rest] ix len vals show ?case by auto
qed


text \<open>
  Claim C7, as the code has it. \<open>merge_delta\<close> applies the operations in list order.
  When nothing raises it returns \<open>True\<close> and the store calls it has issued are, operation
  after operation, those of \<open>op_calls\<close>: one \<open>add_bullet\<close> for an \<open>ADD\<close>; for an
  \<open>UPDATE\<close> with a target id and increments \<open>h\<close> and \<open>k\<close>, \<open>h\<close> calls
  \<open>update_counters(id, helpful=True)\<close> followed by \<open>k\<close> calls
  \<open>update_counters(id, helpful=False)\<close> (none for a negative increment). An \<open>UPDATE\<close>
  without target id does nothing. A completed \<open>ADD\<close> has appended its bullet, its vector
  and its dictionary entry; a completed \<open>UPDATE\<close> on a consistent store has raised the
  counters of its target by \<open>h\<close> and \<open>k\<close>. When the operations \<open>pre\<close> complete and the
  next one raises, \<open>merge_delta\<close> returns \<open>False\<close> and leaves the store in the state the
  raising operation left it in: the calls of \<open>pre\<close> and a non-empty beginning of the
  calls of the failing operation have been issued, and what they did is still there
  (\<open>grows\<close>), nothing is rolled back.
\<close>

theorem C7_merge_delta:
  "(apply_operations env (operations delta) st = (Inr u, st') \<longrightarrow>
      merge_delta env delta st = (True, st') \<and>
      calls st' = calls st @ concat (map op_calls (operations delta))) \<and>
   (operations delta = pre @ bad # post \<and> apply_operations env pre st = (Inr w, st1) \<and>
      apply_operation env bad st1 = (Inl err, st2) \<longrightarrow>
      merge_delta env delta st = (False, st2) \<and> grows st st1 \<and> grows st1 st2 \<and>
      calls st1 = calls st @ concat (map op_calls pre) \<and>
      (\<exists>m. 0 < m \<and> m \<le> length (op_calls bad) \<and>
           calls st2 = calls st1 @ take m (op_calls bad))) \<and>
   (operation op = ''ADD'' \<and> apply_operation env op st = (Inr v, st3) \<longrightarrow>
      (\<exists>c. op_content op = Some c \<and>
           bullets st3 = bullets st @
             [\<lparr>id' = ''ctx-'' @ take 8 (uuid4 env (length (calls st))), helpful = 0, harmful = 0, content = c,
               section' = (case op_section op of None \<Rightarrow> ''General''
                           | Some s \<Rightarrow> if s = [] then ''General'' else s),
               created_at = now env (length (calls st)),
               last_used = now env (length (calls st))\<rparr>] \<and>
           index st3 = index st @ [normalize env (embed_query env (length (embed_log st)) c)] \<and>
           bullet_id_to_index st3 =
             (bullet_id_to_index st)(''ctx-'' @ take 8 (uuid4 env (length (calls st))) \<mapsto> length (bullets st)))) \<and>
   (store_ok st \<and> operation op = ''UPDATE'' \<and> bullet_id op = Some bid \<and> bid \<noteq> [] \<and>
      apply_operation env op st = (Inr v, st4) \<and> p < length (bullets st) \<longrightarrow>
      length (bullets st4) = length (bullets st) \<and>
      index st4 = index st \<and> bullet_id_to_index st4 = bullet_id_to_index st \<and>
      id' (bullets st4 ! p) = id' (bullets st ! p) \<and>
      content (bullets st4 ! p) = content (bullets st ! p) \<and>
      helpful (bullets st4 ! p) = helpful (bullets st ! p)
        + (if id' (bullets st ! p) = bid then int (nat (helpful_increment op)) else 0) \<and>
      harmful (bullets st4 ! p) = harmful (bullets st ! p)
        + (if id' (bullets st ! p) = bid then int (nat (harmful_increment op)) else 0)) \<and>
   (operation op = ''UPDATE'' \<and> (bullet_id op = None \<or> bullet_id op = Some []) \<longrightarrow>
      apply_operation env op st = (Inr (), st))"
proof -
  have done_ok: "apply_operations env (operations delta) st = (Inr u, st') \<longrightarrow>
      merge_delta env delta st = (True, st') \<and>
      calls st' = calls st @ concat (map op_calls (operations delta))"
    using apply_operations_calls by (auto simp: merge_delta_def)
  have raised: "operations delta = pre @ bad # post \<and>
      apply_operations env pre st = (Inr w, st1) \<and>
      apply_operation env bad st1 = (Inl err, st2) \<longrightarrow>
      merge_delta env delta st = (False, st2) \<and> grows st st1 \<and> grows st1 st2 \<and>
      calls st1 = calls st @ concat (map op_calls pre) \<and>
      (\<exists>m. 0 < m \<and> m \<le> length (op_calls bad) \<and>
           calls st2 = calls st1 @ take m (op_calls bad))"
  proof
    assume a: "operations delta = pre @ bad # post \<and>
      apply_operations env pre st = (Inr w, st1) \<and>
      apply_operation env bad st1 = (Inl err, st2)"
    then have m: "merge_delta env delta st = (False, st2)"
      by (simp add: merge_delta_def apply_operations_append)
    from a have g1: "grows st st1" using grows_apply_operations by blast
    from a have g2: "grows st1 st2" using grows_apply_operation by blast
    from a have c1: "calls st1 = calls st @ concat (map op_calls pre)"
      using apply_operations_calls by blast
    from a apply_operation_calls [of env bad st1 "Inl err" st2]
    have c2: "\<exists>m. 0 < m \<and> m \<le> length (op_calls bad) \<and>
           calls st2 = calls st1 @ take m (op_calls bad)"
      by auto
    from m g1 g2 c1 c2
    show "merge_delta env delta st = (False, st2) \<and> grows st st1 \<and> grows st1 st2 \<and>
      calls st1 = calls st @ concat (map op_calls pre) \<and>
      (\<exists>m. 0 < m \<and> m \<le> length (op_calls bad) \<and>
           calls st2 = calls st1 @ take m (op_calls bad))"
      by blast
  qed
  have added: "operation op = ''ADD'' \<and> apply_operation env op st = (Inr v, st3) \<longrightarrow>
      (\<exists>c. op_content op = Some c \<and>
           bullets st3 = bullets st @
             [\<lparr>id' = ''ctx-'' @ take 8 (uuid4 env (length (calls st))), helpful = 0, harmful = 0, content = c,
               section' = (case op_section op of None \<Rightarrow> ''General''
                           | Some s \<Rightarrow> if s = [] then ''General'' else s),
               created_at = now env (length (calls st)),
               last_used = now env (length (calls st))\<rparr>] \<and>
           index st3 = index st @ [normalize env (embed_query env (length (embed_log st)) c)] \<and>
           bullet_id_to_index st3 =
             (bullet_id_to_index st)(''ctx-'' @ take 8 (uuid4 env (length (calls st))) \<mapsto> length (bullets st)))"
  proof
    assume a: "operation op = ''ADD'' \<and> apply_operation env op st = (Inr v, st3)"
    let ?s = "case op_section op of None \<Rightarrow> ''General''
              | Some s \<Rightarrow> if s = [] then ''General'' else s"
    from a obtain i where r: "add_bullet env (op_content op) ?s st = (Inr i, st3)"
      by (auto simp: apply_operation_def split: prod.splits sum.splits)
    then obtain c where c: "op_content op = Some c"
      by (cases "op_content op") (auto simp: add_bullet_def Let_def)
    from add_bullet_effect [OF r [unfolded c]] c
    show "\<exists>c. op_content op = Some c \<and>
           bullets st3 = bullets st @
             [\<lparr>id' = ''ctx-'' @ take 8 (uuid4 env (length (calls st))), helpful = 0, harmful = 0, content = c,
               section' = ?s, created_at = now env (length (calls st)),
               last_used = now env (length (calls st))\<rparr>] \<and>
           index st3 = index st @ [normalize env (embed_query env (length (embed_log st)) c)] \<and>
           bullet_id_to_index st3 =
             (bullet_id_to_index st)(''ctx-'' @ take 8 (uuid4 env (length (calls st))) \<mapsto> length (bullets st))"
      by blast
  qed
  have updated: "store_ok st \<and> operation op = ''UPDATE'' \<and> bullet_id op = Some bid \<and>
      bid \<noteq> [] \<and> apply_operation env op st = (Inr v, st4) \<and> p < length (bullets st) \<longrightarrow>
      length (bullets st4) = length (bullets st) \<and>
      index st4 = index st \<and> bullet_id_to_index st4 = bullet_id_to_index st \<and>
      id' (bullets st4 ! p) = id' (bullets st ! p) \<and>
      content (bullets st4 ! p) = content (bullets st ! p) \<and>
      helpful (bullets st4 ! p) = helpful (bullets st ! p)
        + (if id' (bullets st ! p) = bid then int (nat (helpful_increment op)) else 0) \<and>
      harmful (bullets st4 ! p) = harmful (bullets st ! p)
        + (if id' (bullets st ! p) = bid then int (nat (harmful_increment op)) else 0)"
  proof
    assume a: "store_ok st \<and> operation op = ''UPDATE'' \<and> bullet_id op = Some bid \<and>
      bid \<noteq> [] \<and> apply_operation env op st = (Inr v, st4) \<and> p < length (bullets st)"
    then obtain x sta where
      h: "repeat_update env (nat (helpful_increment op)) bid True st = (Inr x, sta)" and
      k: "repeat_update env (nat (harmful_increment op)) bid False sta = (Inr v, st4)"
      by (auto simp: apply_operation_def split: prod.splits sum.splits)
    from a have ok: "store_ok st" and p: "p < length (bullets st)" by auto
    note A = repeat_update_ok [OF ok h]
    then have oka: "store_ok sta" by blast
    note B = repeat_update_ok [OF oka k]
    from A p have pa: "p < length (bullets sta)" by simp
    from A B p pa
    show "length (bullets st4) = length (bullets st) \<and>
      index st4 = index st \<and> bullet_id_to_index st4 = bullet_id_to_index st \<and>
      id' (bullets st4 ! p) = id' (bullets st ! p) \<and>
      content (bullets st4 ! p) = content (bullets st ! p) \<and>
      helpful (bullets st4 ! p) = helpful (bullets st ! p)
        + (if id' (bullets st ! p) = bid then int (nat (helpful_increment op)) else 0) \<and>
      harmful (bullets st4 ! p) = harmful (bullets st ! p)
        + (if id' (bullets st ! p) = bid then int (nat (harmful_increment op)) else 0)"
      by simp
  qed
  have noid: "operation op = ''UPDATE'' \<and> (bullet_id op = None \<or> bullet_id op = Some []) \<longrightarrow>
      apply_operation env op st = (Inr (), st)"
    by (auto simp: apply_operation_def)
  from done_ok raised added updated noid show ?thesis by blast
qed

text \<open>
  The claim as written fails for an \<open>UPDATE\<close> operation that names no bullet: with
  increments 2 and 1 it issues no call of \<open>update_counters\<close> at all.
\<close>

theorem C7_merge_delta_counterexample:
  "helpful_increment (example_update None 2 1) = 2 \<and>
   harmful_increment (example_update None 2 1) = 1 \<and>
   calls (snd (merge_delta example_env (example_delta [example_update None 2 1])
                 (example_store [example_bullet ''b1'' 0 0 ''ab''])))
     = calls (example_store [example_bullet ''b1'' 0 0 ''ab'']) \<and>
   calls (example_store [example_bullet ''b1'' 0 0 ''ab'']) = []"
  by (simp add: merge_delta_def apply_operation_def example_update_def example_delta_def
      example_store_def)


theorem C7_merge_delta_witness:
  "merge_delta example_env
     (example_delta [example_update (Some ''b1'') 2 1, example_add (Some ''cd''),
                     example_add None, example_add (Some ''ef'')])
     (example_store [example_bullet ''b1'' 0 0 ''ab''])
   = (False,
      snd (apply_operation example_env (example_add None)
             (snd (apply_operations example_env
                     [example_update (Some ''b1'') 2 1, example_add (Some ''cd'')]
                     (example_store [example_bullet ''b1'' 0 0 ''ab''])))))  \<and>
   merge_delta example_env
     (example_delta [example_update (Some ''b1'') 2 1, example_add (Some ''cd'')])
     (example_store [example_bullet ''b1'' 0 0 ''ab''])
   = (True,
      snd (apply_operations example_env
             [example_update (Some ''b1'') 2 1, example_add (Some ''cd'')]
             (example_store [example_bullet ''b1'' 0 0 ''ab'']))) \<and>
   calls (snd (apply_operations example_env
             [example_update (Some ''b1'') 2 1, example_add (Some ''cd'')]
             (example_store [example_bullet ''b1'' 0 0 ''ab''])))
   = [UpdateCounters ''b1'' True, UpdateCounters ''b1'' True, UpdateCounters ''b1'' False,
      AddBullet (Some ''cd'') ''General''] \<and>
   helpful (bullets (snd (apply_operation example_env (example_update (Some ''b1'') 2 1)
                            (example_store [example_bullet ''b1'' 0 0 ''ab'']))) ! 0) = 2 \<and>
   harmful (bullets (snd (apply_operation example_env (example_update (Some ''b1'') 2 1)
                            (example_store [example_bullet ''b1'' 0 0 ''ab'']))) ! 0) = 1 \<and>
   (\<exists>c. op_content (example_add (Some ''cd'')) = Some c \<and>
        map content (bullets (snd (apply_operation example_env (example_add (Some ''cd''))
                                     (example_store [example_bullet ''b1'' 0 0 ''ab'']))))
        = [''ab'', c]) \<and>
   apply_operation example_env (example_update None 2 1)
     (example_store [example_bullet ''b1'' 0 0 ''ab''])
   = (Inr (), example_store [example_bullet ''b1'' 0 0 ''ab''])"
proof -
  let ?S = "example_store [example_bullet ''b1'' 0 0 ''ab'']"
  let ?U = "example_update (Some ''b1'') 2 1"
  let ?A = "example_add (Some ''cd'')"
  let ?pre = "[?U, ?A]"
  let ?D = "example_delta [?U, ?A, example_add None, example_add (Some ''ef'')]"
  let ?S1 = "snd (apply_operations example_env ?pre ?S)"
  let ?S2 = "snd (apply_operation example_env (example_add None) ?S1)"
  let ?S3 = "snd (apply_operation example_env ?A ?S)"
  let ?S4 = "snd (apply_operation example_env ?U ?S)"
  have ok: "store_ok ?S" by (simp add: store_ok_def example_store_def example_bullet_def)
  have ops: "operations ?D = ?pre @ example_add None # [example_add (Some ''ef'')]"
    by (simp add: example_delta_def)
  have pre: "apply_operations example_env ?pre ?S = (Inr (), ?S1)"
    by (rule prod_eqI) (code_simp, simp)
  have pre': "apply_operations example_env (operations (example_delta ?pre)) ?S = (Inr (), ?S1)"
    using pre by (simp add: example_delta_def)
  have bad: "apply_operation example_env (example_add None) ?S1 = (Inl TypeError, ?S2)"
    by (rule prod_eqI) (code_simp, simp)
  have add: "operation ?A = ''ADD'' \<and> apply_operation example_env ?A ?S = (Inr (), ?S3)"
    by (rule conjI, simp add: example_add_def, rule prod_eqI) (code_simp, simp)
  have upd: "operation ?U = ''UPDATE'' \<and> bullet_id ?U = Some ''b1'' \<and> ''b1'' \<noteq> [] \<and>
      apply_operation example_env ?U ?S = (Inr (), ?S4) \<and> (0::nat) < length (bullets ?S)"
    by (intro conjI, simp_all add: example_update_def example_store_def, rule prod_eqI)
      (code_simp, simp)
  have noid: "operation (example_update None 2 1) = ''UPDATE'' \<and>
      (bullet_id (example_update None 2 1) = None \<or> bullet_id (example_update None 2 1) = Some [])"
    by (simp add: example_update_def)
  from C7_merge_delta [where env = example_env and delta = ?D and st = ?S and pre = ?pre
      and bad = "example_add None" and post = "[example_add (Some ''ef'')]" and w = "()"
      and ?st1.0 = ?S1 and err = TypeError and ?st2.0 = ?S2] ops pre bad
  have r1: "merge_delta example_env ?D ?S = (False, ?S2)" by blast
  from C7_merge_delta [where env = example_env and delta = "example_delta ?pre" and st = ?S
      and u = "()" and st' = ?S1 and op = ?U and bid = "''b1''" and v = "()"
      and ?st4.0 = ?S4 and p = 0] pre' ok upd
  have r2: "merge_delta example_env (example_delta ?pre) ?S = (True, ?S1) \<and>
      calls ?S1 = calls ?S @ concat (map op_calls (operations (example_delta ?pre))) \<and>
      helpful (bullets ?S4 ! 0) = helpful (bullets ?S ! 0)
        + (if id' (bullets ?S ! 0) = ''b1'' then int (nat (helpful_increment ?U)) else 0) \<and>
      harmful (bullets ?S4 ! 0) = harmful (bullets ?S ! 0)
        + (if id' (bullets ?S ! 0) = ''b1'' then int (nat (harmful_increment ?U)) else 0)"
    by blast
  have cl: "calls ?S @ concat (map op_calls (operations (example_delta ?pre)))
      = [UpdateCounters ''b1'' True, UpdateCounters ''b1'' True, UpdateCounters ''b1'' False,
         AddBullet (Some ''cd'') ''General'']"
    by (simp add: example_delta_def example_update_def example_add_def example_store_def
        op_calls_def numeral_2_eq_2)
  have hv: "helpful (bullets ?S ! 0)
        + (if id' (bullets ?S ! 0) = ''b1'' then int (nat (helpful_increment ?U)) else 0) = 2"
    by (simp add: example_store_def example_bullet_def example_update_def)
  have kv: "harmful (bullets ?S ! 0)
        + (if id' (bullets ?S ! 0) = ''b1'' then int (nat (harmful_increment ?U)) else 0) = 1"
    by (simp add: example_store_def example_bullet_def example_update_def)
  from C7_merge_delta [where env = example_env and st = ?S and op = ?A and v = "()"
      and ?st3.0 = ?S3] add
  obtain c where c: "op_content ?A = Some c"
    and b3: "bullets ?S3 = bullets ?S @
             [\<lparr>id' = ''ctx-'' @ take 8 (uuid4 example_env (length (calls ?S))), helpful = 0, harmful = 0,
               content = c,
               section' = (case op_section ?A of None \<Rightarrow> ''General''
                           | Some s \<Rightarrow> if s = [] then ''General'' else s),
               created_at = now example_env (length (calls ?S)),
               last_used = now example_env (length (calls ?S))\<rparr>]"
    by blast
  have r3: "\<exists>c. op_content ?A = Some c \<and> map content (bullets ?S3) = [''ab'', c]"
    using c unfolding b3 by (simp add: example_store_def example_bullet_def)
  from C7_merge_delta [where env = example_env and st = ?S and op = "example_update None 2 1"]
    noid
  have r4: "apply_operation example_env (example_update None 2 1) ?S = (Inr (), ?S)" by blast
  from r1 r2 r3 r4 show ?thesis unfolding cl hv kv by blast
qed


subsection \<open>Usage counters\<close>

lemma counters_loop_ok:
  assumes "store_ok st" and ns: "\<forall>n. \<not> save_fails env n"
  shows "\<exists>st'. counters_loop env pos neg used st = (Inr (), st') \<and> store_ok st' \<and>
         length (bullets st') = length (bullets st) \<and>
         (\<forall>p<length (bullets st).
            id' (bullets st' ! p) = id' (bullets st ! p) \<and>
            helpful (bullets st' ! p)
              = helpful (bullets st ! p)
                + (if pos then int (count_list used (id' (bullets st ! p))) else 0) \<and>
            harmful (bullets st' ! p)
              = harmful (bullets st ! p)
                + (if \<not> pos \<and> neg then int (count_list used (id' (bullets st ! p))) else 0))"
  using assms(1)
proof (induction used arbitrary: st)
  case Nil
  then show ?case by simp
next
  case (Cons bid rest)
  show ?case
  proof (cases "pos \<or> neg")
    case False
    then show ?thesis using Cons.IH [OF Cons.prems] by simp
  next
    case True
    obtain r st1 where
      run: "update_counters env bid pos st = (r, st1)" and ok1: "store_ok st1" and
      res: "r = Inr False \<or> r = Inr True \<or> (r = Inl OSError \<and> save_fails env (saves st))" and
      len: "length (bullets st1) = length (bullets st)" and
      vals: "\<forall>p<length (bullets st).
              id' (bullets st1 ! p) = id' (bullets st ! p) \<and>
              content (bullets st1 ! p) = content (bullets st ! p) \<and>
              section' (bullets st1 ! p) = section' (bullets st ! p) \<and>
              helpful (bullets st1 ! p) = helpful (bullets st ! p)
                + (if pos \<and> id' (bullets st ! p) = bid then 1 else 0) \<and>
              harmful (bullets st1 ! p) = harmful (bullets st ! p)
                + (if \<not> pos \<and> id' (bullets st ! p) = bid then 1 else 0)"
      using update_counters_ok [OF Cons.prems, of env bid pos] by blast
    from res ns obtain b where rb: "r = Inr b" by auto
    have step: "counters_loop env pos neg (bid # rest) st = counters_loop env pos neg rest st1"
      using True run rb by (cases pos) auto
    from Cons.IH [OF ok1] obtain st' where
      fin: "counters_loop env pos neg rest st1 = (Inr (), st')" and ok': "store_ok st'" and
      len': "length (bullets st') = length (bullets st1)" and
      vals': "\<forall>p<length (bullets st1).
            id' (bullets st' ! p) = id' (bullets st1 ! p) \<and>
            helpful (bullets st' ! p)
              = helpful (bullets st1 ! p)
                + (if pos then int (count_list rest (id' (bullets st1 ! p))) else 0) \<and>
            harmful (bullets st' ! p)
              = harmful (bullets st1 ! p)
                + (if \<not> pos \<and> neg then int (count_list rest (id' (bullets st1 ! p))) else 0)"
      by blast
    have "\<forall>p<length (bullets st).
            id' (bullets st' ! p) = id' (bullets st ! p) \<and>
            helpful (bullets st' ! p)
              = helpful (bullets st ! p)
                + (if pos then int (count_list (bid # rest) (id' (bullets st ! p))) else 0) \<and>
            harmful (bullets st' ! p)
              = harmful (bullets st ! p)
                + (if \<not> pos \<and> neg
                   then int (count_list (bid # rest) (id' (bullets st ! p))) else 0)"
    proof (intro allI impI)
      fix p assume p: "p < length (bullets st)"
      with len have p1: "p < length (bullets st1)" by simp
      from vals p vals' p1 True
      show "id' (bullets st' ! p) = id' (bullets st ! p) \<and>
            helpful (bullets st' ! p)
              = helpful (bullets st ! p)
                + (if pos then int (count_list (bid # rest) (id' (bullets st ! p))) else 0) \<and>
            harmful (bullets st' ! p)
              = harmful (bullets st ! p)
                + (if \<not> pos \<and> neg
                   then int (count_list (bid # rest) (id' (bullets st ! p))) else 0)"
        by auto
    qed
    with fin ok' len len' show ?thesis unfolding step by auto
  qed
qed

text \<open>
  Claim C8, as the code has it. A feedback record without a rating changes nothing (the
  comparison raises and the exception is swallowed). With a rating \<open>r\<close>, on a consistent
  store whose saves succeed, every bullet keeps its place and its id, and with
  \<open>n\<close> the number of times its id occurs in the list of surfaced ids (1 for an id
  listed once): if \<open>r \<ge> 4\<close> or the type is \<open>positive\<close>, its helpful counter grows by \<open>n\<close>
  and its harmful counter is unchanged; otherwise, if \<open>r \<le> 2\<close> or the type is
  \<open>incorrect\<close>, its harmful counter grows by \<open>n\<close> and its helpful counter is unchanged;
  otherwise both are unchanged. The positive test comes first: a feedback that passes
  both tests counts as positive.
\<close>

theorem C8_usage_counters:
  "(rating feedback_data = None \<longrightarrow>
      update_bullet_counters env chat_data feedback_data st = st) \<and>
   (store_ok st \<and> (\<forall>n. \<not> save_fails env n) \<and> p < length (bullets st) \<and>
      rating feedback_data = Some r \<longrightarrow>
      (let is_positive = (4 \<le> r \<or> feedback_type feedback_data = ''positive'');
           is_negative = (r \<le> 2 \<or> feedback_type feedback_data = ''incorrect'');
           n = int (count_list (used_bullets chat_data) (id' (bullets st ! p)));
           st' = update_bullet_counters env chat_data feedback_data st
       in length (bullets st') = length (bullets st) \<and>
          id' (bullets st' ! p) = id' (bullets st ! p) \<and>
          helpful (bullets st' ! p)
            = helpful (bullets st ! p) + (if is_positive then n else 0) \<and>
          harmful (bullets st' ! p)
            = harmful (bullets st ! p) + (if \<not> is_positive \<and> is_negative then n else 0)))"
proof (intro conjI impI)
  assume "rating feedback_data = None"
  then show "update_bullet_counters env chat_data feedback_data st = st"
    by (simp add: update_bullet_counters_def)
next
  assume a: "store_ok st \<and> (\<forall>n. \<not> save_fails env n) \<and> p < length (bullets st) \<and>
      rating feedback_data = Some r"
  show "(let is_positive = (4 \<le> r \<or> feedback_type feedback_data = ''positive'');
           is_negative = (r \<le> 2 \<or> feedback_type feedback_data = ''incorrect'');
           n = int (count_list (used_bullets chat_data) (id' (bullets st ! p)));
           st' = update_bullet_counters env chat_data feedback_data st
       in length (bullets st') = length (bullets st) \<and>
          id' (bullets st' ! p) = id' (bullets st ! p) \<and>
          helpful (bullets st' ! p)
            = helpful (bullets st ! p) + (if is_positive then n else 0) \<and>
          harmful (bullets st' ! p)
            = harmful (bullets st ! p) + (if \<not> is_positive \<and> is_negative then n else 0))"
  proof (cases "used_bullets chat_data = []")
    case True
    with a show ?thesis by (simp add: update_bullet_counters_def Let_def)
  next
    case False
    from a have ok: "store_ok st" and ns: "\<forall>n. \<not> save_fails env n"
      and p: "p < length (bullets st)" and r: "rating feedback_data = Some r" by auto
    let ?pos = "4 \<le> r \<or> feedback_type feedback_data = ''positive''"
    let ?neg = "r \<le> 2 \<or> feedback_type feedback_data = ''incorrect''"
    from counters_loop_ok [OF ok ns, of ?pos ?neg "used_bullets chat_data"]
    obtain st1 where
      fin: "counters_loop env ?pos ?neg (used_bullets chat_data) st = (Inr (), st1)" and
      len: "length (bullets st1) = length (bullets st)" and
      vals: "\<forall>p<length (bullets st).
            id' (bullets st1 ! p) = id' (bullets st ! p) \<and>
            helpful (bullets st1 ! p)
              = helpful (bullets st ! p)
                + (if ?pos then int (count_list (used_bullets chat_data) (id' (bullets st ! p)))
                   else 0) \<and>
            harmful (bullets st1 ! p)
              = harmful (bullets st ! p)
                + (if \<not> ?pos \<and> ?neg
                   then int (count_list (used_bullets chat_data) (id' (bullets st ! p)))
                   else 0)"
      by blast
    have u: "bullets (update_bullet_counters env chat_data feedback_data st) = bullets st1"
      using False r fin by (simp add: update_bullet_counters_def Let_def save_playbook_def)
    from vals p len show ?thesis unfolding Let_def u by simp
  qed
qed

theorem C8_usage_counters_witness:
  "helpful (bullets (update_bullet_counters example_env (example_chat [''b1'', ''b2''])
                       (example_feedback ''correct'' (Some 5))
                       (example_store [example_bullet ''b1'' 0 0 ''ab'',
                                       example_bullet ''b2'' 3 1 ''abc'',
                                       example_bullet ''b3'' 0 0 ''a''])) ! 1) = 4 \<and>
   harmful (bullets (update_bullet_counters example_env (example_chat [''b1'', ''b2''])
                       (example_feedback ''correct'' (Some 5))
                       (example_store [example_bullet ''b1'' 0 0 ''ab'',
                                       example_bullet ''b2'' 3 1 ''abc'',
                                       example_bullet ''b3'' 0 0 ''a''])) ! 1) = 1 \<and>
   update_bullet_counters example_env (example_chat [''b1''])
     (example_feedback ''correct'' None) (example_store [example_bullet ''b1'' 0 0 ''ab''])
   = example_store [example_bullet ''b1'' 0 0 ''ab'']"
proof -
  let ?S = "example_store [example_bullet ''b1'' 0 0 ''ab'', example_bullet ''b2'' 3 1 ''abc'',
                           example_bullet ''b3'' 0 0 ''a'']"
  let ?C = "example_chat [''b1'', ''b2'']"
  let ?F = "example_feedback ''correct'' (Some 5)"
  have ok: "store_ok ?S" by (simp add: store_ok_def example_store_def example_bullet_def)
  have ns: "\<forall>n. \<not> save_fails example_env n" by (simp add: example_env_def)
  have p: "(1::nat) < length (bullets ?S)" by (simp add: example_store_def)
  have r: "rating ?F = Some 5" by (simp add: example_feedback_def)
  have n: "rating (example_feedback ''correct'' None) = None" by (simp add: example_feedback_def)
  from C8_usage_counters [where feedback_data = ?F and env = example_env and chat_data = ?C
      and st = ?S and p = 1 and r = 5] ok ns p r
  have a: "helpful (bullets (update_bullet_counters example_env ?C ?F ?S) ! 1)
        = helpful (bullets ?S ! 1)
          + (if (4::int) \<le> 5 \<or> feedback_type ?F = ''positive''
             then int (count_list (used_bullets ?C) (id' (bullets ?S ! 1))) else 0) \<and>
      harmful (bullets (update_bullet_counters example_env ?C ?F ?S) ! 1)
        = harmful (bullets ?S ! 1)
          + (if \<not> ((4::int) \<le> 5 \<or> feedback_type ?F = ''positive'')
                \<and> ((5::int) \<le> 2 \<or> feedback_type ?F = ''incorrect'')
             then int (count_list (used_bullets ?C) (id' (bullets ?S ! 1))) else 0)"
    unfolding Let_def by blast
  from C8_usage_counters [where feedback_data = "example_feedback ''correct'' None"
      and env = example_env and chat_data = "example_chat [''b1'']"
      and st = "example_store [example_bullet ''b1'' 0 0 ''ab'']"] n
  have b: "update_bullet_counters example_env (example_chat [''b1''])
     (example_feedback ''correct'' None) (example_store [example_bullet ''b1'' 0 0 ''ab''])
   = example_store [example_bullet ''b1'' 0 0 ''ab'']"
    by blast
  from a b show ?thesis
    by (simp add: example_store_def example_bullet_def example_chat_def)
qed

text \<open>
  The claim as written fails where its cases overlap: for a feedback rated 5 of type
  \<open>incorrect\<close> the bullet surfaced gets its helpful counter raised, and its harmful
  counter is left as it was.
\<close>

theorem C8_usage_counters_counterexample:
  "rating (example_feedback ''incorrect'' (Some 5)) = Some 5 \<and>
   feedback_type (example_feedback ''incorrect'' (Some 5)) = ''incorrect'' \<and>
   map (\<lambda>b. (helpful b, harmful b))
     (bullets (example_store [example_bullet ''b1'' 0 0 ''ab''])) = [(0, 0)] \<and>
   map (\<lambda>b. (helpful b, harmful b))
     (bullets (update_bullet_counters example_env (example_chat [''b1''])
                 (example_feedback ''incorrect'' (Some 5))
                 (example_store [example_bullet ''b1'' 0 0 ''ab'']))) = [(1, 0)]"
  by code_simp


subsection \<open>Deduplication\<close>

lemma kept_total_absorb:
  assumes i: "i < length bs" and j: "j < length bs" and ij: "i \<noteq> j"
    and ni: "i \<notin> rm" and nj: "j \<notin> rm"
  shows "kept_total (insert j rm) (bs[i := absorb (bs ! i) (bs ! j)]) = kept_total rm bs"
proof -
  let ?w = "\<lambda>b. helpful b + harmful b"
  let ?bs' = "bs[i := absorb (bs ! i) (bs ! j)]"
  let ?A = "{..<length bs} - rm"
  let ?S = "?A - {i} - {j}"
  have fin: "finite ?A" by simp
  have iA: "i \<in> ?A" and jA: "j \<in> ?A - {i}" using i j ij ni nj by auto
  have old: "kept_total rm bs = ?w (bs ! i) + (?w (bs ! j) + (\<Sum>k\<in>?S. ?w (bs ! k)))"
    unfolding kept_total_def
    using sum.remove [OF fin iA, of "\<lambda>k. ?w (bs ! k)"]
      sum.remove [of "?A - {i}" j "\<lambda>k. ?w (bs ! k)"] jA
    by simp
  have set': "{..<length ?bs'} - insert j rm = insert i ?S" using iA ij by auto
  have "kept_total (insert j rm) ?bs' = (\<Sum>k\<in>insert i ?S. ?w (?bs' ! k))"
    unfolding kept_total_def set' ..
  also have "\<dots> = ?w (?bs' ! i) + (\<Sum>k\<in>?S. ?w (?bs' ! k))"
    by (rule sum.insert) auto
  also have "(\<Sum>k\<in>?S. ?w (?bs' ! k)) = (\<Sum>k\<in>?S. ?w (bs ! k))"
    by (rule sum.cong) auto
  also have "?w (?bs' ! i) = ?w (bs ! i) + ?w (bs ! j)"
    using i by (simp add: absorb_def)
  finally show ?thesis using old by simp
qed

lemma kept_total_filter:
  "total_counts (map snd (filter (\<lambda>(i, b). i \<notin> rm) (enumerate 0 bs))) = kept_total rm bs"
proof (induction bs rule: rev_induct)
  case Nil
  show ?case by (simp add: total_counts_def kept_total_def)
next
  case (snoc x bs)
  let ?w = "\<lambda>b. helpful b + harmful b"
  let ?n = "length bs"
  have en: "enumerate 0 (bs @ [x]) = enumerate 0 bs @ [(?n, x)]"
    by (simp add: enumerate_append_eq)
  have same: "(\<Sum>i\<in>{..<?n} - rm. ?w ((bs @ [x]) ! i)) = (\<Sum>i\<in>{..<?n} - rm. ?w (bs ! i))"
    by (rule sum.cong) (auto simp: nth_append)
  show ?case
  proof (cases "?n \<in> rm")
    case True
    then have "{..<length (bs @ [x])} - rm = {..<?n} - rm"
      by (auto simp: less_Suc_eq)
    with True snoc same show ?thesis
      by (simp add: en total_counts_def kept_total_def)
  next
    case False
    then have s: "{..<length (bs @ [x])} - rm = insert ?n ({..<?n} - rm)"
      by (auto simp: less_Suc_eq)
    have "(\<Sum>i\<in>insert ?n ({..<?n} - rm). ?w ((bs @ [x]) ! i))
        = ?w ((bs @ [x]) ! ?n) + (\<Sum>i\<in>{..<?n} - rm. ?w ((bs @ [x]) ! i))"
      by (rule sum.insert) auto
    with False snoc same s show ?thesis
      by (simp add: en total_counts_def kept_total_def)
  qed
qed

lemma kept_total_empty: "kept_total {} bs = total_counts bs"
  using kept_total_filter [of "{}" bs] by (simp add: enumerate_eq_zip)


lemma absorb_id: "id' (absorb a b) = id' a"
  by (simp add: absorb_def)

lemma map_id_update:
  "i < length bs \<Longrightarrow> id' b = id' (bs ! i) \<Longrightarrow> map id' (bs[i := b]) = map id' bs"
  by (simp add: map_update list_update_same_conv)

lemma dedup_inner_inv:
  fixes env :: "('v, 's::linorder) Env"
  assumes "dedup_inner env thr i js rm st = (r, st')"
    and "i < length (bullets st)" and "i \<notin> rm"
    and "\<forall>j\<in>set js. i < j \<and> j < length (bullets st)"
  shows "map id' (bullets st') = map id' (bullets st) \<and>
         index st' = index st \<and> bullet_id_to_index st' = bullet_id_to_index st \<and>
         calls st' = calls st \<and> saves st' = saves st \<and>
         (\<forall>rm'. r = Inr rm' \<longrightarrow>
            rm \<subseteq> rm' \<and> kept_total rm' (bullets st') = kept_total rm (bullets st))"
  using assms
proof (induction js arbitrary: rm st)
  case Nil
  then show ?case by auto
next
  case (Cons j js)
  let ?bs = "bullets st"
  let ?bi = "?bs ! i"
  let ?bj = "?bs ! j"
  let ?ei = "embed_query env (length (embed_log st)) (content ?bi)"
  let ?ej = "embed_query env (Suc (length (embed_log st))) (content ?bj)"
  let ?st2 = "st\<lparr>embed_log := embed_log st @ [content ?bi] @ [content ?bj]\<rparr>"
  from Cons.prems have i: "i < length ?bs" and ni: "i \<notin> rm"
    and j: "i < j" "j < length ?bs"
    and rest: "\<forall>j\<in>set js. i < j \<and> j < length ?bs"
    by auto
  show ?case
  proof (cases "j \<in> rm")
    case True
    with Cons.prems(1) have "dedup_inner env thr i js rm st = (r, st')" by simp
    from Cons.IH [OF this i ni rest] show ?thesis .
  next
    case nj: False
    have step: "dedup_inner env thr i (j # js) rm st =
       (if norm_positive env ?ei \<and> norm_positive env ?ej then
          (case cosine env ?ei ?ej of
             None \<Rightarrow> (Inl ValueError, ?st2)
           | Some similarity \<Rightarrow>
               if similarity \<ge> thr then
                 (if ratio ?bi \<ge> ratio ?bj
                  then dedup_inner env thr i js (insert j rm)
                         (?st2\<lparr>bullets := ?bs[i := absorb ?bi ?bj]\<rparr>)
                  else (Inr (insert i rm), ?st2\<lparr>bullets := ?bs[j := absorb ?bj ?bi]\<rparr>))
               else dedup_inner env thr i js rm ?st2)
        else dedup_inner env thr i js rm ?st2)"
      using nj by (simp add: get_embedding_def Let_def split: option.splits)
    have cont: ?thesis if run: "dedup_inner env thr i js rm ?st2 = (r, st')"
    proof -
      have "i < length (bullets ?st2)" "\<forall>j\<in>set js. i < j \<and> j < length (bullets ?st2)"
        using i rest by simp_all
      from Cons.IH [OF run this(1) ni this(2)] show ?thesis by simp
    qed
    have absorbed: ?thesis
      if run: "dedup_inner env thr i js (insert j rm)
                 (?st2\<lparr>bullets := ?bs[i := absorb ?bi ?bj]\<rparr>) = (r, st')"
    proof -
      let ?st3 = "?st2\<lparr>bullets := ?bs[i := absorb ?bi ?bj]\<rparr>"
      have a: "i < length (bullets ?st3)" using i by simp
      have b: "i \<notin> insert j rm" using ni j by auto
      have c: "\<forall>j\<in>set js. i < j \<and> j < length (bullets ?st3)" using rest by simp
      have k: "kept_total (insert j rm) (bullets ?st3) = kept_total rm ?bs"
        using kept_total_absorb [OF i j(2) _ ni nj] j(1) by simp
      have m: "map id' (bullets ?st3) = map id' ?bs"
        using map_id_update [OF i, of "absorb ?bi ?bj"] by (simp add: absorb_id)
      from Cons.IH [OF run a b c] k m show ?thesis by auto
    qed
    have broke: ?thesis
      if run: "r = Inr (insert i rm)" "st' = ?st2\<lparr>bullets := ?bs[j := absorb ?bj ?bi]\<rparr>"
    proof -
      have k: "kept_total (insert i rm) (?bs[j := absorb ?bj ?bi]) = kept_total rm ?bs"
        using kept_total_absorb [OF j(2) i _ nj ni] j(1) by simp
      have m: "map id' (?bs[j := absorb ?bj ?bi]) = map id' ?bs"
        using map_id_update [OF j(2), of "absorb ?bj ?bi"] by (simp add: absorb_id)
      from run k m show ?thesis by auto
    qed
    have failed: ?thesis if run: "r = Inl ValueError" "st' = ?st2"
      using run by simp
    from Cons.prems(1) [unfolded step] cont absorbed broke failed
    show ?thesis by (auto split: if_splits option.splits)
  qed
qed


lemma dedup_outer_inv:
  fixes env :: "('v, 's::linorder) Env"
  assumes "dedup_outer env thr is rm st = (r, st')"
    and "\<forall>i\<in>set is. i < length (bullets st)"
  shows "map id' (bullets st') = map id' (bullets st) \<and>
         index st' = index st \<and> bullet_id_to_index st' = bullet_id_to_index st \<and>
         calls st' = calls st \<and> saves st' = saves st \<and>
         (\<forall>rm'. r = Inr rm' \<longrightarrow>
            rm \<subseteq> rm' \<and> kept_total rm' (bullets st') = kept_total rm (bullets st))"
  using assms
proof (induction "is" arbitrary: rm st)
  case Nil
  then show ?case by auto
next
  case (Cons i "is")
  from Cons.prems have i: "i < length (bullets st)"
    and rest: "\<forall>i\<in>set is. i < length (bullets st)" by auto
  show ?case
  proof (cases "i \<in> rm")
    case True
    with Cons.prems(1) have "dedup_outer env thr is rm st = (r, st')" by simp
    from Cons.IH [OF this rest] show ?thesis .
  next
    case False
    obtain r1 st1 where
      inner: "dedup_inner env thr i [i + 1..<length (bullets st)] rm st = (r1, st1)"
      by (cases "dedup_inner env thr i [i + 1..<length (bullets st)] rm st")
    have js: "\<forall>j\<in>set [i + 1..<length (bullets st)]. i < j \<and> j < length (bullets st)"
      by auto
    note I = dedup_inner_inv [OF inner i False js]
    show ?thesis
    proof (cases r1)
      case (Inl e)
      with Cons.prems(1) False inner have "r = Inl e" "st' = st1" by auto
      with I show ?thesis by simp
    next
      case (Inr rm1)
      with Cons.prems(1) False inner have run: "dedup_outer env thr is rm1 st1 = (r, st')"
        by auto
      from I have "length (bullets st1) = length (bullets st)" by (metis length_map)
      with rest have rest1: "\<forall>i\<in>set is. i < length (bullets st1)" by simp
      from Cons.IH [OF run rest1] I Inr show ?thesis by auto
    qed
  qed
qed

lemma rebuild_loop_keeps:
  "rebuild_loop env xs st = (r, st') \<Longrightarrow>
   bullets st' = bullets st \<and> calls st' = calls st \<and> saves st' = saves st"
proof (induction xs arbitrary: st)
  case Nil
  then show ?case by simp
next
  case (Cons x xs)
  obtain i b where x: "x = (i, b)" by (cases x)
  from Cons.prems show ?case
    unfolding x
    by (auto simp: get_embedding_def Let_def split: if_splits dest!: Cons.IH)
qed

lemma rebuild_index_keeps:
  "rebuild_index env st = (r, st') \<Longrightarrow>
   bullets st' = bullets st \<and> calls st' = calls st \<and> saves st' = saves st"
  unfolding rebuild_index_def by (auto dest!: rebuild_loop_keeps)

lemma deduplicate_bullets:
  fixes env :: "('v, 's::linorder) Env"
  assumes "deduplicate env thr st = (r, st')"
  shows "length (bullets st) < 2 \<and> st' = st \<and> r = Inr 0 \<or>
    (\<exists>r1 st1. dedup_outer env thr [0..<length (bullets st)] {} st = (r1, st1) \<and>
       (case r1 of
          Inl e \<Rightarrow> r = Inl e \<and> st' = st1
        | Inr rm \<Rightarrow>
            if rm = {} then r = Inr 0 \<and> st' = st1
            else bullets st' = map snd (filter (\<lambda>(i, b). i \<notin> rm) (enumerate 0 (bullets st1)))
                 \<and> r \<noteq> Inl ValueError))"
proof (cases "length (bullets st) < 2")
  case True
  with assms show ?thesis by (simp add: deduplicate_def)
next
  case False
  obtain r1 st1 where o: "dedup_outer env thr [0..<length (bullets st)] {} st = (r1, st1)"
    by (cases "dedup_outer env thr [0..<length (bullets st)] {} st")
  have "case r1 of
          Inl e \<Rightarrow> r = Inl e \<and> st' = st1
        | Inr rm \<Rightarrow>
            if rm = {} then r = Inr 0 \<and> st' = st1
            else bullets st' = map snd (filter (\<lambda>(i, b). i \<notin> rm) (enumerate 0 (bullets st1)))
                 \<and> r \<noteq> Inl ValueError"
  proof (cases r1)
    case (Inl e)
    with assms False o show ?thesis by (simp add: deduplicate_def)
  next
    case (Inr rm)
    show ?thesis
    proof (cases "rm = {}")
      case True
      with assms False o Inr show ?thesis by (simp add: deduplicate_def)
    next
      case ne: False
      let ?st2 = "st1\<lparr>bullets :=
                     map snd (filter (\<lambda>(i, b). i \<notin> rm) (enumerate 0 (bullets st1)))\<rparr>"
      obtain r3 st3 where rb: "rebuild_index env ?st2 = (r3, st3)"
        by (cases "rebuild_index env ?st2")
      from rebuild_index_keeps [OF rb] have b3: "bullets st3 = bullets ?st2" by simp
      have r3: "r3 \<noteq> Inl ValueError"
      proof -
        have "rebuild_loop env xs s = (q, s') \<Longrightarrow> q \<noteq> Inl ValueError" for xs s q s'
        proof (induction xs arbitrary: s)
          case Nil
          then show ?case by auto
        next
          case (Cons x xs)
          obtain i b where x: "x = (i, b)" by (cases x)
          from Cons.prems show ?case
            unfolding x
            by (auto simp: get_embedding_def Let_def split: if_splits dest!: Cons.IH)
        qed
        with rb show ?thesis unfolding rebuild_index_def by blast
      qed
      from assms False o Inr ne rb b3 r3
      have "bullets st' = bullets ?st2 \<and> r \<noteq> Inl ValueError"
        by (auto simp: deduplicate_def save_playbook_def split: sum.splits if_splits)
      with Inr ne show ?thesis by simp
    qed
  qed
  with o show ?thesis by blast
qed

text \<open>
  Claim C6. Whenever \<open>deduplicate\<close> gets through its pairwise comparison, whatever the
  store and the threshold, the sum of helpful and harmful counters over the bullets it
  leaves equals the sum over the bullets it found: the counters of a bullet that goes
  have been added to those of a bullet that stays. For two bullets that the comparison
  finds similar, the one that stays is the one with the higher ratio
  \<open>helpful / max(harmful, 1)\<close> (the first on a tie), with the counters of both.
\<close>

theorem C6_dedup_conserves_counters:
  fixes env :: "('v, 's::linorder) Env"
  shows
  "(deduplicate env threshold st = (r, st') \<and> r \<noteq> Inl ValueError \<longrightarrow>
      total_counts (bullets st') = total_counts (bullets st)) \<and>
   (bullets st = [a, b] \<and>
      norm_positive env (embed_query env (length (embed_log st)) (content a)) \<and>
      norm_positive env (embed_query env (Suc (length (embed_log st))) (content b)) \<and>
      cosine env (embed_query env (length (embed_log st)) (content a))
                 (embed_query env (Suc (length (embed_log st))) (content b)) = Some s \<and>
      threshold \<le> s \<longrightarrow>
      bullets (snd (deduplicate env threshold st))
        = [if ratio b \<le> ratio a then absorb a b else absorb b a])"
proof (intro conjI impI)
  assume a: "deduplicate env threshold st = (r, st') \<and> r \<noteq> Inl ValueError"
  then have run: "deduplicate env threshold st = (r, st')" and nv: "r \<noteq> Inl ValueError"
    by auto
  from deduplicate_bullets [OF run]
  show "total_counts (bullets st') = total_counts (bullets st)"
  proof
    assume "length (bullets st) < 2 \<and> st' = st \<and> r = Inr 0"
    then show ?thesis by simp
  next
    assume "\<exists>r1 st1. dedup_outer env threshold [0..<length (bullets st)] {} st = (r1, st1) \<and>
       (case r1 of
          Inl e \<Rightarrow> r = Inl e \<and> st' = st1
        | Inr rm \<Rightarrow>
            if rm = {} then r = Inr 0 \<and> st' = st1
            else bullets st' = map snd (filter (\<lambda>(i, b). i \<notin> rm) (enumerate 0 (bullets st1)))
                 \<and> r \<noteq> Inl ValueError)"
    then obtain r1 st1 where
      o: "dedup_outer env threshold [0..<length (bullets st)] {} st = (r1, st1)" and
      c: "case r1 of
          Inl e \<Rightarrow> r = Inl e \<and> st' = st1
        | Inr rm \<Rightarrow>
            if rm = {} then r = Inr 0 \<and> st' = st1
            else bullets st' = map snd (filter (\<lambda>(i, b). i \<notin> rm) (enumerate 0 (bullets st1)))
                 \<and> r \<noteq> Inl ValueError"
      by blast
    have rng: "\<forall>i\<in>set [0..<length (bullets st)]. i < length (bullets st)" by simp
    note I = dedup_outer_inv [OF o rng]
    show ?thesis
    proof (cases r1)
      case (Inl e)
      have "e = ValueError"
      proof -
        have inner: "dedup_inner env threshold i js rm s = (Inl x, s') \<Longrightarrow> x = ValueError"
          for i js rm s x s'
        proof (induction js arbitrary: rm s)
          case Nil
          then show ?case by simp
        next
          case (Cons j js)
          from Cons.prems show ?case
            by (auto simp: get_embedding_def Let_def split: if_splits option.splits
                dest: Cons.IH)
        qed
        have outer: "dedup_outer env threshold is rm s = (Inl x, s') \<Longrightarrow> x = ValueError"
          for "is" rm s x s'
        proof (induction "is" arbitrary: rm s)
          case Nil
          then show ?case by simp
        next
          case (Cons i "is")
          from Cons.prems show ?case
            by (auto split: if_splits prod.splits sum.splits dest: Cons.IH inner)
        qed
        from o Inl outer show ?thesis by blast
      qed
      with c Inl nv show ?thesis by simp
    next
      case (Inr rm)
      with I have k: "kept_total rm (bullets st1) = kept_total {} (bullets st)" by simp
      show ?thesis
      proof (cases "rm = {}")
        case True
        with c Inr k show ?thesis by (simp add: kept_total_empty)
      next
        case False
        with c Inr have "bullets st'
            = map snd (filter (\<lambda>(i, b). i \<notin> rm) (enumerate 0 (bullets st1)))"
          by simp
        then show ?thesis using k by (simp add: kept_total_filter kept_total_empty)
      qed
    qed
  qed
next
  assume a: "bullets st = [a, b] \<and>
      norm_positive env (embed_query env (length (embed_log st)) (content a)) \<and>
      norm_positive env (embed_query env (Suc (length (embed_log st))) (content b)) \<and>
      cosine env (embed_query env (length (embed_log st)) (content a))
                 (embed_query env (Suc (length (embed_log st))) (content b)) = Some s \<and>
      threshold \<le> s"
  obtain r st' where run: "deduplicate env threshold st = (r, st')"
    by (cases "deduplicate env threshold st")
  have u1: "[0..<2] = [0, Suc 0]" by (simp add: upt_rec)
  have u2: "[Suc 0..<2] = [Suc 0]" by (simp add: upt_rec)
  have o: "dedup_outer env threshold [0..<length (bullets st)] {} st
      = (if ratio b \<le> ratio a
         then (Inr {Suc 0},
               st\<lparr>embed_log := embed_log st @ [content a] @ [content b],
                  bullets := [absorb a b, b]\<rparr>)
         else (Inr {0},
               st\<lparr>embed_log := embed_log st @ [content a] @ [content b],
                  bullets := [a, absorb b a]\<rparr>))"
    using a by (simp add: u1 u2 get_embedding_def Let_def)
  from deduplicate_bullets [OF run] a o
  have "bullets st' = [if ratio b \<le> ratio a then absorb a b else absorb b a]"
    by (auto simp: enumerate_eq_zip u1 split: if_splits)
  with run show "bullets (snd (deduplicate env threshold st))
        = [if ratio b \<le> ratio a then absorb a b else absorb b a]"
    by simp
qed


theorem C6_dedup_conserves_counters_witness:
  "deduplicate example_env 1
     (example_store [example_bullet ''a'' 2 1 ''aa'', example_bullet ''b'' 1 0 ''bb'',
                     example_bullet ''c'' 5 5 ''c''])
   = (Inr 1,
      snd (deduplicate example_env 1
             (example_store [example_bullet ''a'' 2 1 ''aa'', example_bullet ''b'' 1 0 ''bb'',
                             example_bullet ''c'' 5 5 ''c'']))) \<and>
   total_counts (bullets (snd (deduplicate example_env 1
             (example_store [example_bullet ''a'' 2 1 ''aa'', example_bullet ''b'' 1 0 ''bb'',
                             example_bullet ''c'' 5 5 ''c''])))) = 14 \<and>
   bullets (snd (deduplicate example_env 1
             (example_store [example_bullet ''a'' 2 1 ''aa'', example_bullet ''b'' 1 0 ''bb''])))
   = [example_bullet ''a'' 3 1 ''aa'']"
proof -
  let ?a = "example_bullet ''a'' 2 1 ''aa''"
  let ?b = "example_bullet ''b'' 1 0 ''bb''"
  let ?S = "example_store [?a, ?b, example_bullet ''c'' 5 5 ''c'']"
  let ?T = "example_store [?a, ?b]"
  have run: "deduplicate example_env 1 ?S = (Inr 1, snd (deduplicate example_env 1 ?S))"
    by (rule prod_eqI) (code_simp, simp)
  have nv: "(Inr 1 :: error + nat) \<noteq> Inl ValueError" by simp
  have t: "total_counts (bullets ?S) = 14"
    by (simp add: total_counts_def example_store_def example_bullet_def)
  have h: "bullets ?T = [?a, ?b] \<and>
      norm_positive example_env
        (embed_query example_env (length (embed_log ?T)) (content ?a)) \<and>
      norm_positive example_env
        (embed_query example_env (Suc (length (embed_log ?T))) (content ?b)) \<and>
      cosine example_env (embed_query example_env (length (embed_log ?T)) (content ?a))
        (embed_query example_env (Suc (length (embed_log ?T))) (content ?b)) = Some 1 \<and>
      (1::int) \<le> 1"
    by (simp add: example_store_def example_env_def example_bullet_def)
  have w: "(if ratio ?b \<le> ratio ?a then absorb ?a ?b else absorb ?b ?a)
      = example_bullet ''a'' 3 1 ''aa''"
    by (simp add: ratio_def absorb_def example_bullet_def)
  from C6_dedup_conserves_counters [where env = example_env and threshold = 1 and st = ?S
      and r = "Inr 1" and st' = "snd (deduplicate example_env 1 ?S)"] run nv
  have c1: "total_counts (bullets (snd (deduplicate example_env 1 ?S)))
      = total_counts (bullets ?S)"
    by blast
  from C6_dedup_conserves_counters [where env = example_env and threshold = 1 and st = ?T
      and a = ?a and b = ?b and s = 1] h
  have c2: "bullets (snd (deduplicate example_env 1 ?T))
      = [if ratio ?b \<le> ratio ?a then absorb ?a ?b else absorb ?b ?a]"
    by blast
  from run c1 c2 show ?thesis unfolding t w by simp
qed


end
